theory Spec2Isabelle
  imports Main
begin

section \<open>JavaScript values\<close>

text \<open>
  A property of a JavaScript object is absent, present with \<open>null\<close>/\<open>undefined\<close>
  (the driver serialises both as \<open>null\<close>), or present with a value.
\<close>

datatype 'a field = Absent | Null | Val 'a

text \<open>A thrown \<open>Error\<close> with its message.\<close>

datatype error = Error string

text \<open>Truthiness of an optional string: \<open>undefined\<close>, \<open>null\<close> and \<open>""\<close> are falsy.\<close>

definition truthy :: "string option \<Rightarrow> bool" where
  "truthy v = (case v of None \<Rightarrow> False | Some s \<Rightarrow> s \<noteq> [])"

text \<open>\<open>a || b\<close> on optional strings.\<close>

definition or_else :: "string option \<Rightarrow> string option \<Rightarrow> string option" where
  "or_else a b = (if truthy a then a else b)"

text \<open>\<open>a || "literal"\<close>: the result is always a string.\<close>

definition or_lit :: "string option \<Rightarrow> string \<Rightarrow> string" where
  "or_lit a d = (case a of None \<Rightarrow> d | Some s \<Rightarrow> if s = [] then d else s)"

text \<open>\<open>n || m\<close> on numbers: \<open>0\<close> is falsy.\<close>

definition num_or :: "int \<Rightarrow> int \<Rightarrow> int" where
  "num_or n m = (if n = 0 then m else n)"

text \<open>
  A string is a list of characters with codes 0 to 255 (the first 256 UTF-16 code units).
  \<open>String.prototype.toLowerCase\<close> on them: the letters A to Z and the capital letters
  192 to 222 other than the multiplication sign 215 move up by 32.
\<close>

definition lower_char :: "char \<Rightarrow> char" where
  "lower_char c =
     (let n = (of_char c :: nat)
      in if (65 \<le> n \<and> n \<le> 90) \<or> (192 \<le> n \<and> n \<le> 222 \<and> n \<noteq> 215) then char_of (n + 32) else c)"

definition toLowerCase :: "string \<Rightarrow> string" where
  "toLowerCase s = map lower_char s"

text \<open>
  \<open>String.prototype.trim\<close>: white space and line terminators are removed at both ends.
  Among the characters 0 to 255 these are tab, line feed, vertical tab, form feed, carriage
  return, space and the no-break space 160.
\<close>

definition is_space :: "char \<Rightarrow> bool" where
  "is_space c = ((of_char c :: nat) \<in> {9, 10, 11, 12, 13, 32, 160})"

definition trim :: "string \<Rightarrow> string" where
  "trim s = rev (dropWhile is_space (rev (dropWhile is_space s)))"

section \<open>Canonical messenger events (types/messenger-event.ts)\<close>

record relation =
  rel_eventId :: "string option"
  relationType :: "string option"

record reply_to =
  rt_eventId :: string
  rt_senderId :: "string option"
  rt_body :: "string option"
  rt_timestamp :: "int option"

record media =
  media_url :: "string option"
  media_info :: string

text \<open>The payload of a canonical event, one shape per mapper.\<close>

datatype cme_content =
    MessageContent (mc_body: string) (mc_msgtype: string)
      (mc_replyTo: "reply_to option") (mc_media: "media option")
  | ReactionContent (rc_body: string) (rc_emoji: string) (rc_targetMessageId: string)
  | ReceiptContent (rcp_ack: string) (rcp_targetMessageId: string)

text \<open>
  The event as the mappers \<open>toCanonicalEventFrom*\<close> build it. The store-managed
  fields \<open>ingestedAt\<close> and \<open>updatedAt\<close> belong to the stored document.
\<close>

record canonical_event =
  source :: string
  arcUserId :: string
  eventId :: "string field"
  roomId :: string
  senderId :: string
  timestamp :: int
  etype :: string
  encrypted :: bool
  content :: cme_content
  relatesTo :: "relation option"
  platform :: string

record doc = canonical_event +
  ingestedAt :: int
  ingestedAtDate :: int
  updatedAt :: int

section \<open>The events collection and the store writer (handlers/database.ts)\<close>

text \<open>
  An equality filter of the driver: \<open>None\<close> means that the filter does not constrain
  the field. \<open>source\<close> and \<open>arcUserId\<close> are in every filter the writer builds.
\<close>

record event_filter =
  f_source :: string
  f_arcUserId :: string
  f_eventId :: "string option"
  f_type :: "string option"
  f_roomId :: "string option"
  f_senderId :: "string option"
  f_rel_eventId :: "string option"
  f_timestamp :: "int option"

definition on_field :: "'a option \<Rightarrow> 'a \<Rightarrow> bool" where
  "on_field c v = (case c of None \<Rightarrow> True | Some x \<Rightarrow> v = x)"

definition matches :: "event_filter \<Rightarrow> doc \<Rightarrow> bool" where
  "matches f d \<longleftrightarrow>
     source d = f_source f \<and> arcUserId d = f_arcUserId f \<and>
     (case f_eventId f of None \<Rightarrow> True | Some i \<Rightarrow> eventId d = Val i) \<and>
     on_field (f_type f) (etype d) \<and>
     on_field (f_roomId f) (roomId d) \<and>
     on_field (f_senderId f) (senderId d) \<and>
     (case f_rel_eventId f of None \<Rightarrow> True
      | Some x \<Rightarrow> (case relatesTo d of None \<Rightarrow> False | Some r \<Rightarrow> rel_eventId r = Some x)) \<and>
     on_field (f_timestamp f) (timestamp d)"

text \<open>
  The identity filter of \<open>insertCanonicalEvent\<close>: by event id when the event has a
  non-empty string id, else the composite receipt key, else the fallback composite.
\<close>

definition has_string_id :: "canonical_event \<Rightarrow> bool" where
  "has_string_id e = (case eventId e of Val i \<Rightarrow> i \<noteq> [] | _ \<Rightarrow> False)"

definition rel_id_of :: "canonical_event \<Rightarrow> string option" where
  "rel_id_of e =
     (case relatesTo e of None \<Rightarrow> None
      | Some r \<Rightarrow> if truthy (rel_eventId r) then rel_eventId r else None)"

definition build_filter :: "canonical_event \<Rightarrow> event_filter" where
  "build_filter e =
     (if has_string_id e then
        \<lparr>f_source = source e, f_arcUserId = arcUserId e,
         f_eventId = (case eventId e of Val i \<Rightarrow> Some i | _ \<Rightarrow> None),
         f_type = None, f_roomId = None, f_senderId = None,
         f_rel_eventId = None, f_timestamp = None\<rparr>
      else if etype e = ''receipt'' then
        \<lparr>f_source = source e, f_arcUserId = arcUserId e, f_eventId = None,
         f_type = Some ''receipt'', f_roomId = Some (roomId e),
         f_senderId = Some (senderId e), f_rel_eventId = rel_id_of e,
         f_timestamp = None\<rparr>
      else
        \<lparr>f_source = source e, f_arcUserId = arcUserId e, f_eventId = None,
         f_type = Some (etype e), f_roomId = Some (roomId e),
         f_senderId = Some (senderId e), f_rel_eventId = None,
         f_timestamp = Some (timestamp e)\<rparr>)"

text \<open>
  The update document \<open>{$setOnInsert: {ingestedAt, ingestedAtDate}, $set: {...event,
  updatedAt}}\<close>. \<open>$set\<close> writes every property the event has; a property the event
  lacks keeps the document's value.
\<close>

record update =
  u_setOnInsert :: int
  u_set :: canonical_event
  u_updatedAt :: int

definition apply_set :: "update \<Rightarrow> doc \<Rightarrow> doc" where
  "apply_set u d =
     (let e = u_set u in
      d\<lparr>source := source e, arcUserId := arcUserId e,
        eventId := (case eventId e of Absent \<Rightarrow> eventId d | x \<Rightarrow> x),
        roomId := roomId e, senderId := senderId e, timestamp := timestamp e,
        etype := etype e, encrypted := encrypted e, content := content e,
        relatesTo := (case relatesTo e of None \<Rightarrow> relatesTo d | Some r \<Rightarrow> Some r),
        platform := platform e, updatedAt := u_updatedAt u\<rparr>)"

text \<open>
  The document an upsert inserts: the filter's equality fields, then \<open>$setOnInsert\<close>,
  then \<open>$set\<close>. The fields the filter leaves open start empty and are written by
  \<open>$set\<close>, which carries the whole event.
\<close>

definition base_doc :: "event_filter \<Rightarrow> update \<Rightarrow> doc" where
  "base_doc f u =
     \<lparr>source = f_source f, arcUserId = f_arcUserId f,
      eventId = (case f_eventId f of None \<Rightarrow> Absent | Some i \<Rightarrow> Val i),
      roomId = (case f_roomId f of None \<Rightarrow> [] | Some r \<Rightarrow> r),
      senderId = (case f_senderId f of None \<Rightarrow> [] | Some s \<Rightarrow> s),
      timestamp = (case f_timestamp f of None \<Rightarrow> 0 | Some t \<Rightarrow> t),
      etype = (case f_type f of None \<Rightarrow> [] | Some t \<Rightarrow> t),
      encrypted = False, content = content (u_set u),
      relatesTo = (case f_rel_eventId f of None \<Rightarrow> None
                   | Some x \<Rightarrow> Some \<lparr>rel_eventId = Some x, relationType = None\<rparr>),
      platform = [],
      ingestedAt = u_setOnInsert u, ingestedAtDate = u_setOnInsert u, updatedAt = 0\<rparr>"

fun update_first :: "('a \<Rightarrow> bool) \<Rightarrow> ('a \<Rightarrow> 'a) \<Rightarrow> 'a list \<Rightarrow> 'a list option" where
  "update_first p g [] = None"
| "update_first p g (x # xs) =
     (if p x then Some (g x # xs) else map_option ((#) x) (update_first p g xs))"

text \<open>
  \<open>collection.updateOne(filter, update, {upsert: true})\<close>: the first document that
  matches is updated in place; when none matches one document is inserted. The call
  rejects when the driver cannot reach the server (\<open>up = False\<close>).
\<close>

definition updateOne :: "bool \<Rightarrow> event_filter \<Rightarrow> update \<Rightarrow> doc list \<Rightarrow> error + doc list" where
  "updateOne up f u c =
     (if \<not> up then Inl (Error ''MongoNetworkError'')
      else case update_first (matches f) (apply_set u) c of
             Some c' \<Rightarrow> Inr c'
           | None \<Rightarrow> Inr (c @ [apply_set u (base_doc f u)]))"

section \<open>Events published to the bus (types/arc-event.ts)\<close>

datatype arc_content =
    ArcMessage (am_body: string) (am_msgtype: string) (am_event_id: string) (am_event_ts: int)
      (am_replyTo: "reply_to option") (am_id: "string \<times> string") (am_serialId: string)
      (am_media: "media option")
  | ArcReaction (ar_body: string) (ar_event_id: "string option") (ar_event_ts: int)
      (ar_emoji: string) (ar_targetMessageId: string)
  | ArcReceipt (arcp_ack: string) (arcp_targetMessageId: string)

record arc_event =
  a_source :: string
  a_arcUserId :: string
  a_eventId :: "string option"
  a_roomId :: string
  a_senderId :: string
  a_timestamp :: int
  a_type :: string
  a_encrypted :: bool
  a_content :: arc_content
  a_relatesTo :: "relation option"
  a_platform :: string
  a_v :: int
  a_ackPolicy :: string
  a_ttlMs :: int

section \<open>Configuration (config.ts)\<close>

record process_env =
  MATRIX_USER_ID :: "string option"
  ARC_USER_ID :: "string option"
  PUBLISH_REACTIONS :: "string option"
  PUBLISH_RECEIPTS :: "string option"
  LOG_LEVEL :: "string option"

record config =
  matrixUserId :: string
  cfg_arcUserId :: string
  publishReactions :: bool
  publishReceipts :: bool
  logLevel :: string

definition load_config :: "process_env \<Rightarrow> config" where
  "load_config pe =
     \<lparr>matrixUserId = or_lit (MATRIX_USER_ID pe) [],
      cfg_arcUserId = or_lit (ARC_USER_ID pe) [],
      publishReactions = (toLowerCase (or_lit (PUBLISH_REACTIONS pe) ''true'') = ''true''),
      publishReceipts = (toLowerCase (or_lit (PUBLISH_RECEIPTS pe) ''false'') = ''true''),
      logLevel = or_lit (LOG_LEVEL pe) ''info''\<rparr>"

section \<open>Console output (cli/ui.ts)\<close>

text \<open>
  The table \<open>LEVELS\<close>; a name that is not one of its keys has no number.
\<close>

definition LEVELS :: "string \<Rightarrow> int option" where
  "LEVELS l =
     (if l = ''silent'' then Some 0
      else if l = ''error'' then Some 10
      else if l = ''warn'' then Some 20
      else if l = ''info'' then Some 30
      else if l = ''debug'' then Some 40
      else None)"

text \<open>
  \<open>isEnabled\<close>: \<open>LEVELS[level] <= LEVELS[current]\<close>, which is false when the configured
  level has no number.
\<close>

definition isEnabled :: "config \<Rightarrow> string \<Rightarrow> bool" where
  "isEnabled c level =
     (case (LEVELS level, LEVELS (or_lit (Some (logLevel c)) ''info'')) of
        (Some a, Some b) \<Rightarrow> a \<le> b
      | _ \<Rightarrow> False)"

section \<open>The state the handlers act on\<close>

text \<open>
  The events and contacts collections, the publish calls issued to the broker, the lines
  that \<open>cli.printError\<close> has written to the console, and the events on which a one-shot
  \<open>Event.decrypted\<close> listener was registered (with whether the listener republishes).
\<close>

record world =
  events :: "doc list"
  contacts :: "(string \<times> string) list"
  bus :: "arc_event list"
  errors :: "string list"
  decrypt_listeners :: "(string \<times> bool) list"

text \<open>
  \<open>cli.printError\<close>: the line is written when the level \<open>error\<close> is enabled. The
  marker that \<open>printError\<close> strips from the start of a line is not among the characters
  0 to 255, so the line is written as it is passed.
\<close>

definition printError :: "config \<Rightarrow> string \<Rightarrow> world \<Rightarrow> world" where
  "printError c text w = (if isEnabled c ''error'' then w\<lparr>errors := errors w @ [text]\<rparr> else w)"

text \<open>
  \<open>Database.insertCanonicalEvent\<close>: the upsert under \<open>try\<close>; a rejected driver
  call is logged and swallowed. \<open>now\<close> is the value \<open>Date.now()\<close> returns.
\<close>

definition insertCanonicalEvent :: "config \<Rightarrow> bool \<Rightarrow> int \<Rightarrow> canonical_event \<Rightarrow> world \<Rightarrow> world" where
  "insertCanonicalEvent c up now event w =
     (let flt = build_filter event;
          upd = \<lparr>u_setOnInsert = now, u_set = event, u_updatedAt = now\<rparr>
      in case updateOne up flt upd (events w) of
           Inr col \<Rightarrow> w\<lparr>events := col\<rparr>
         | Inl (Error m) \<Rightarrow> printError c (''[Error upserting CME] Error: '' @ m) w)"

section \<open>Protocol events and rooms, as the handlers read them\<close>

record relates_to =
  m_in_reply_to :: "string option"
  in_reply_to :: "string option"
  rel_event_id :: "string option"
  rel_type :: "string option"
  rel_key :: "string option"

text \<open>
  The keys of an event content that the mapper reads; \<open>c_other\<close> says whether the
  object has any other key.
\<close>

datatype content =
  Content (c_body: "string option") (c_formatted_body: "string option")
    (c_msgtype: "string option") (c_url: "string option") (c_info: "string option")
    (c_new_content: "content option") (c_relates_to: "relates_to option") (c_other: bool)

definition no_keys :: "content \<Rightarrow> bool" where
  "no_keys c \<longleftrightarrow>
     c_body c = None \<and> c_formatted_body c = None \<and> c_msgtype c = None \<and> c_url c = None \<and>
     c_info c = None \<and> c_new_content c = None \<and> c_relates_to c = None \<and> \<not> c_other c"

text \<open>
  What the getters of a \<open>MatrixEvent\<close> return during one handler run:
  \<open>getId\<close>, \<open>getSender\<close>, \<open>getTs\<close>, \<open>getType\<close>, \<open>getContent\<close>,
  \<open>getClearContent\<close>, \<open>isDecryptionFailure\<close>, and for an \<open>m.receipt\<close> event the
  \<open>m.read\<close> map of each target event id, in key order.
\<close>

record matrix_event =
  ev_id :: "string option"
  ev_sender :: "string option"
  ev_ts :: int
  ev_type :: string
  ev_content :: content
  ev_clear :: "content option"
  ev_decryption_failure :: bool
  ev_receipts :: "(string \<times> (string \<times> int option) list) list"

text \<open>The result of a lookup that can find the event, find nothing, or throw.\<close>

datatype lookup = Hit matrix_event | Miss | Fault

record room =
  r_roomId :: string
  findEventById :: "string \<Rightarrow> lookup"
  canonicalAlias :: "string option"
  guessDMUserId :: "string option"
  joined_members :: "string option list"
  members_load_ok :: bool

datatype profile = ProfileFails | Profile "string option"

text \<open>
  What one handler run finds around it: the configuration, the homeserver
  (\<open>fetchRoomEvent\<close>, \<open>getProfileInfo\<close>), whether the database is connected, whether
  driver calls and broker publishes succeed, and the clock.
\<close>

record env =
  cfg :: config
  fetchRoomEvent :: "string \<Rightarrow> string \<Rightarrow> lookup"
  getProfileInfo :: "string \<Rightarrow> profile"
  db_connected :: bool
  store_up :: bool
  broker_up :: bool
  now :: int

section \<open>The canonical event mapper (handlers/matrix-events.ts)\<close>

record enriched_message =
  em_id :: string
  em_serialized :: string
  em_from :: string
  em_to :: string
  em_recipientId :: "string option"
  em_author :: "string option"
  em_type :: string
  em_body :: string
  em_timestamp :: int
  em_serialId :: string
  em_roomId :: string
  em_replyTo :: "reply_to option"
  em_media :: "media option"

record enriched_reaction =
  er_id :: "string option"
  er_msgId :: string
  er_senderId :: string
  er_reaction :: string
  er_timestamp :: int

definition sessionId :: "config \<Rightarrow> string" where
  "sessionId c =
     (if matrixUserId c \<noteq> [] \<and> trim (matrixUserId c) \<noteq> [] then trim (matrixUserId c)
      else cfg_arcUserId c)"

definition getMsgType :: "string \<Rightarrow> string" where
  "getMsgType t =
     (if t = ''chat'' then ''m.text'' else if t = ''image'' then ''m.image''
      else if t = ''video'' then ''m.video'' else if t = ''audio'' then ''m.audio''
      else if t = ''document'' then ''m.file'' else if t = ''location'' then ''m.location''
      else ''m.text'')"

definition getMessageType :: "string \<Rightarrow> string" where
  "getMessageType t =
     (if t = ''m.text'' then ''chat'' else if t = ''m.image'' then ''image''
      else if t = ''m.video'' then ''video'' else if t = ''m.audio'' then ''audio''
      else if t = ''m.file'' then ''document'' else if t = ''m.location'' then ''location''
      else ''chat'')"

definition base_content :: "matrix_event \<Rightarrow> content" where
  "base_content ev =
     (let rawContent = ev_content ev;
          clearContent = (case ev_clear ev of Some c \<Rightarrow> c | None \<Rightarrow> rawContent)
      in if \<not> no_keys clearContent then clearContent else rawContent)"

definition effective_content :: "content \<Rightarrow> content" where
  "effective_content b = (case c_new_content b of Some n \<Rightarrow> n | None \<Rightarrow> b)"

definition replyEventId :: "content \<Rightarrow> content \<Rightarrow> string option" where
  "replyEventId b eff =
     (case (case c_relates_to b of Some r \<Rightarrow> Some r | None \<Rightarrow> c_relates_to eff) of
        None \<Rightarrow> None
      | Some r \<Rightarrow>
          (let x = or_else (m_in_reply_to r) (or_else (in_reply_to r) (rel_event_id r))
           in if truthy x then x else None))"

definition bare_reference :: "string \<Rightarrow> reply_to" where
  "bare_reference x = \<lparr>rt_eventId = x, rt_senderId = None, rt_body = None, rt_timestamp = None\<rparr>"

text \<open>
  The reply target is looked up in the room's in-memory history only; a miss and a
  throwing lookup both give the bare reference.
\<close>

definition resolve_reply :: "room \<Rightarrow> string \<Rightarrow> reply_to" where
  "resolve_reply rm x =
     (case findEventById rm x of
        Hit target \<Rightarrow>
          (let targetClear = (case ev_clear target of Some c \<Rightarrow> c | None \<Rightarrow> ev_content target);
               targetBase = effective_content targetClear
           in \<lparr>rt_eventId = x,
               rt_senderId = (if truthy (ev_sender target) then ev_sender target else None),
               rt_body = or_else (c_body targetBase) (c_formatted_body targetBase),
               rt_timestamp = Some (ev_ts target)\<rparr>)
      | Miss \<Rightarrow> bare_reference x
      | Fault \<Rightarrow> bare_reference x)"

definition recipient_to :: "string \<Rightarrow> string \<Rightarrow> room \<Rightarrow> string" where
  "recipient_to sender myUserId rm =
     (if canonicalAlias rm = None then
        (let guessedDM = guessDMUserId rm;
             otherUserId = (if truthy guessedDM \<and> guessedDM \<noteq> Some myUserId then guessedDM else None)
         in if sender = myUserId then (case otherUserId of Some other \<Rightarrow> other | None \<Rightarrow> r_roomId rm)
            else myUserId)
      else
        (let joined = joined_members rm in
         if length joined = 2 \<and> myUserId \<noteq> [] then
           (case find (\<lambda>m. truthy m \<and> m \<noteq> Some myUserId) joined of
              Some (Some other) \<Rightarrow> (if sender = myUserId then other else myUserId)
            | _ \<Rightarrow> r_roomId rm)
         else r_roomId rm))"

definition media_of :: "content \<Rightarrow> media option" where
  "media_of eff =
     (case c_msgtype eff of
        None \<Rightarrow> None
      | Some t \<Rightarrow>
          if t \<in> set [''m.image'', ''m.video'', ''m.audio'', ''m.file'']
          then Some \<lparr>media_url = c_url eff, media_info = or_lit (c_info eff) ''{}''\<rparr>
          else None)"

definition translateMatrixEvent :: "env \<Rightarrow> matrix_event \<Rightarrow> room \<Rightarrow> error + enriched_message" where
  "translateMatrixEvent en ev rm =
     (case (ev_sender ev, ev_id ev) of
        (Some sender, Some eid) \<Rightarrow>
          if sender = [] \<or> eid = [] then Inl (Error ''Invalid Matrix event: missing sender or event ID'')
          else
            (let baseContent = base_content ev;
                 effectiveContent = effective_content baseContent;
                 replyTo = map_option (resolve_reply rm) (replyEventId baseContent effectiveContent);
                 myUserIdStr = trim (matrixUserId (cfg en))
             in if \<not> members_load_ok rm then Inl (Error ''loadMembersIfNeeded failed'')
                else Inr
                  \<lparr>em_id = eid, em_serialized = eid, em_from = sender,
                   em_to = recipient_to sender myUserIdStr rm,
                   em_recipientId =
                     Some (if sender = myUserIdStr then or_lit (guessDMUserId rm) (r_roomId rm)
                           else myUserIdStr),
                   em_author = Some sender,
                   em_type = getMessageType
                     (or_lit (or_else (c_msgtype effectiveContent) (c_msgtype baseContent)) ''m.text''),
                   em_body = or_lit (or_else (c_body effectiveContent)
                       (or_else (c_formatted_body effectiveContent) (c_body baseContent)))
                     ''[No content]'',
                   em_timestamp = ev_ts ev, em_serialId = eid, em_roomId = r_roomId rm,
                   em_replyTo = replyTo, em_media = media_of effectiveContent\<rparr>)
      | _ \<Rightarrow> Inl (Error ''Invalid Matrix event: missing sender or event ID''))"

definition toCanonicalEventFromMessage :: "config \<Rightarrow> enriched_message \<Rightarrow> bool \<Rightarrow> canonical_event" where
  "toCanonicalEventFromMessage c enriched enc =
     \<lparr>source = ''messenger'', arcUserId = sessionId c, eventId = Val (em_serialId enriched),
      roomId = em_roomId enriched, senderId = em_from enriched,
      timestamp = em_timestamp enriched, etype = ''message'', encrypted = enc,
      content = MessageContent (em_body enriched) (getMsgType (em_type enriched))
                  (em_replyTo enriched) (em_media enriched),
      relatesTo = None, platform = ''matrix''\<rparr>"

definition toCanonicalEventFromReaction ::
    "config \<Rightarrow> enriched_reaction \<Rightarrow> string \<Rightarrow> string \<Rightarrow> int \<Rightarrow> canonical_event" where
  "toCanonicalEventFromReaction c reaction rid sid ts =
     \<lparr>source = ''messenger'', arcUserId = sessionId c,
      eventId = (case er_id reaction of None \<Rightarrow> Null | Some i \<Rightarrow> Val i),
      roomId = rid, senderId = sid, timestamp = ts, etype = ''reaction'', encrypted = False,
      content = ReactionContent (er_reaction reaction) (er_reaction reaction) (er_msgId reaction),
      relatesTo = Some \<lparr>rel_eventId = Some (er_msgId reaction), relationType = Some ''annotation''\<rparr>,
      platform = ''matrix''\<rparr>"

definition toCanonicalEventFromReceipt ::
    "config \<Rightarrow> string \<Rightarrow> string \<Rightarrow> string \<Rightarrow> int \<Rightarrow> string \<Rightarrow> canonical_event" where
  "toCanonicalEventFromReceipt c targetEventId rid reader ts ack =
     \<lparr>source = ''messenger'', arcUserId = sessionId c, eventId = Absent,
      roomId = rid, senderId = reader, timestamp = ts, etype = ''receipt'', encrypted = False,
      content = ReceiptContent ack targetEventId,
      relatesTo = Some \<lparr>rel_eventId = Some targetEventId, relationType = None\<rparr>,
      platform = ''matrix''\<rparr>"

definition buildMessageEvent :: "config \<Rightarrow> int \<Rightarrow> enriched_message \<Rightarrow> bool \<Rightarrow> arc_event" where
  "buildMessageEvent c dateNow enriched enc =
     (let eventMs = num_or (em_timestamp enriched) dateNow in
      \<lparr>a_source = ''messenger'', a_arcUserId = sessionId c,
       a_eventId = Some (em_serialId enriched), a_roomId = em_roomId enriched,
       a_senderId = em_from enriched, a_timestamp = eventMs, a_type = ''message'',
       a_encrypted = enc,
       a_content = ArcMessage (em_body enriched) (getMsgType (em_type enriched))
           (em_serialId enriched) (eventMs div 1000) (em_replyTo enriched)
           (em_id enriched, em_serialized enriched) (em_serialId enriched) (em_media enriched),
       a_relatesTo = None, a_platform = ''matrix'', a_v = 1,
       a_ackPolicy = ''at-least-once'', a_ttlMs = 600000\<rparr>)"

definition buildReactionEvent ::
    "config \<Rightarrow> int \<Rightarrow> enriched_reaction \<Rightarrow> enriched_message \<Rightarrow> arc_event" where
  "buildReactionEvent c dateNow reaction enrichedMsg =
     (let eventMs = num_or (er_timestamp reaction) (num_or (em_timestamp enrichedMsg) dateNow) in
      \<lparr>a_source = ''messenger'', a_arcUserId = sessionId c, a_eventId = er_id reaction,
       a_roomId = em_roomId enrichedMsg, a_senderId = em_from enrichedMsg,
       a_timestamp = eventMs, a_type = ''reaction'', a_encrypted = False,
       a_content = ArcReaction (er_reaction reaction) (er_id reaction) (eventMs div 1000)
           (er_reaction reaction) (er_msgId reaction),
       a_relatesTo = Some \<lparr>rel_eventId = Some (er_msgId reaction),
                            relationType = Some ''annotation''\<rparr>,
       a_platform = ''matrix'', a_v = 1, a_ackPolicy = ''at-least-once'', a_ttlMs = 600000\<rparr>)"

definition buildReceiptEvent ::
    "config \<Rightarrow> int \<Rightarrow> string \<Rightarrow> enriched_message \<Rightarrow> string \<Rightarrow> int \<Rightarrow> arc_event" where
  "buildReceiptEvent c dateNow targetEventId enrichedMsg ackType ts =
     (let eventMs = num_or ts (num_or (em_timestamp enrichedMsg) dateNow) in
      \<lparr>a_source = ''messenger'', a_arcUserId = sessionId c, a_eventId = Some targetEventId,
       a_roomId = em_roomId enrichedMsg, a_senderId = em_from enrichedMsg,
       a_timestamp = eventMs, a_type = ''receipt'', a_encrypted = False,
       a_content = ArcReceipt ackType targetEventId,
       a_relatesTo = Some \<lparr>rel_eventId = Some targetEventId, relationType = None\<rparr>,
       a_platform = ''matrix'', a_v = 1, a_ackPolicy = ''at-least-once'', a_ttlMs = 600000\<rparr>)"

section \<open>The event handlers (handlers/matrix-events.ts)\<close>

text \<open>
  A handler body either returns or throws; in both cases the writes it made before are
  in the state it leaves behind.
\<close>

datatype outcome = Returned world | Threw error world

fun state_of :: "outcome \<Rightarrow> world" where
  "state_of (Returned w) = w"
| "state_of (Threw e w) = w"

definition logError :: "config \<Rightarrow> string \<Rightarrow> error \<Rightarrow> world \<Rightarrow> world" where
  "logError c context e w = (case e of Error m \<Rightarrow> printError c (context @ '': '' @ m) w)"

definition executeWithErrorLogging :: "config \<Rightarrow> string \<Rightarrow> outcome \<Rightarrow> world" where
  "executeWithErrorLogging c context r =
     (case r of Returned w \<Rightarrow> w | Threw e w \<Rightarrow> logError c context e w)"

text \<open>\<open>publishEvent\<close>: the publish call is issued; it throws when the broker is down.\<close>

definition publishEvent :: "env \<Rightarrow> arc_event \<Rightarrow> world \<Rightarrow> outcome" where
  "publishEvent en a w =
     (let w' = w\<lparr>bus := bus w @ [a]\<rparr>
      in if broker_up en then Returned w' else Threw (Error ''publish failed'') w')"

fun upsert_by_key :: "'k \<Rightarrow> 'v \<Rightarrow> ('k \<times> 'v) list \<Rightarrow> ('k \<times> 'v) list" where
  "upsert_by_key k v [] = [(k, v)]"
| "upsert_by_key k v ((k', v') # xs) =
     (if k' = k then (k, v) # xs else (k', v') # upsert_by_key k v xs)"

definition upsertContact :: "env \<Rightarrow> string \<times> string \<Rightarrow> world \<Rightarrow> world" where
  "upsertContact en contact w =
     (case contact of (serialId, name) \<Rightarrow>
        if serialId = [] then printError (cfg en) ''Invalid or undefined contact provided'' w
        else if \<not> store_up en then
          printError (cfg en)
            (''[Error upserting contact] Error: MongoNetworkError for contact: '' @ serialId) w
        else w\<lparr>contacts := upsert_by_key serialId name (contacts w)\<rparr>)"

definition translateMatrixUser :: "string \<Rightarrow> string option \<Rightarrow> string \<times> string" where
  "translateMatrixUser userId displayName = (userId, or_lit displayName userId)"

definition addMatrixContact :: "env \<Rightarrow> string \<Rightarrow> world \<Rightarrow> world" where
  "addMatrixContact en legacyContactId w =
     (if take 1 legacyContactId \<noteq> ''@'' then w
      else case getProfileInfo en legacyContactId of
             Profile displayname \<Rightarrow> upsertContact en (translateMatrixUser legacyContactId displayname) w
           | ProfileFails \<Rightarrow> upsertContact en (translateMatrixUser legacyContactId None) w)"

definition localUserId :: "config \<Rightarrow> string" where
  "localUserId c = (if trim (matrixUserId c) \<noteq> [] then trim (matrixUserId c) else sessionId c)"

definition handleIncomingMessage_body :: "env \<Rightarrow> matrix_event \<Rightarrow> room \<Rightarrow> world \<Rightarrow> outcome" where
  "handleIncomingMessage_body en ev rm w =
     (if \<not> db_connected en then Threw (Error ''Database not connected'') w
      else case translateMatrixEvent en ev rm of
        Inl e \<Rightarrow> Threw e w
      | Inr enrichedMessage \<Rightarrow>
          (let w1 = addMatrixContact en (em_from enrichedMessage) w;
               recv = toCanonicalEventFromReceipt (cfg en) (em_serialized enrichedMessage)
                        (r_roomId rm) (localUserId (cfg en)) (em_timestamp enrichedMessage)
                        ''received'';
               w2 = insertCanonicalEvent (cfg en) (store_up en) (now en) recv w1;
               enc = (ev_type ev = ''m.room.encrypted'' \<or> ev_decryption_failure ev \<or>
                      em_body enrichedMessage = ''[No content]'');
               cme = toCanonicalEventFromMessage (cfg en) enrichedMessage enc;
               w3 = insertCanonicalEvent (cfg en) (store_up en) (now en) cme w2;
               arcEvent = buildMessageEvent (cfg en) (now en) enrichedMessage enc
           in case publishEvent en arcEvent w3 of
                Threw e w4 \<Rightarrow> Threw e w4
              | Returned w4 \<Rightarrow>
                  Returned
                    (if em_body enrichedMessage = ''[No content]''
                     then w4\<lparr>decrypt_listeners :=
                              decrypt_listeners w4 @ [(em_serialized enrichedMessage, False)]\<rparr>
                     else w4)))"

definition handleIncomingMessage :: "env \<Rightarrow> matrix_event \<Rightarrow> room \<Rightarrow> world \<Rightarrow> world" where
  "handleIncomingMessage en ev rm w =
     executeWithErrorLogging (cfg en) ''Matrix Event Incoming Message Error''
       (handleIncomingMessage_body en ev rm w)"

definition handleMessageCreation_body :: "env \<Rightarrow> matrix_event \<Rightarrow> room \<Rightarrow> world \<Rightarrow> outcome" where
  "handleMessageCreation_body en ev rm w =
     (case translateMatrixEvent en ev rm of
        Inl e \<Rightarrow> Threw e w
      | Inr enrichedMessage \<Rightarrow>
          if \<not> db_connected en then Threw (Error ''Database not connected'') w
          else
            (let w1 = addMatrixContact en (em_to enrichedMessage) w;
                 w2 = addMatrixContact en (em_from enrichedMessage) w1;
                 cmeSelf = toCanonicalEventFromMessage (cfg en) enrichedMessage False;
                 w3 = insertCanonicalEvent (cfg en) (store_up en) (now en) cmeSelf w2;
                 arcEventSelf = buildMessageEvent (cfg en) (now en) enrichedMessage False
             in case publishEvent en arcEventSelf w3 of
                  Threw e w4 \<Rightarrow> Threw e w4
                | Returned w4 \<Rightarrow>
                    Returned
                      (if em_body enrichedMessage = ''[No content]''
                       then w4\<lparr>decrypt_listeners :=
                                decrypt_listeners w4 @ [(em_serialized enrichedMessage, True)]\<rparr>
                       else w4)))"

definition handleMessageCreation :: "env \<Rightarrow> matrix_event \<Rightarrow> room \<Rightarrow> world \<Rightarrow> world" where
  "handleMessageCreation en ev rm w =
     executeWithErrorLogging (cfg en) ''Matrix Event Message Creation Error''
       (handleMessageCreation_body en ev rm w)"

text \<open>
  \<open>resolveTargetEvent\<close>: the live timeline, then a fetch from the homeserver; a
  failing fetch is caught, a throwing timeline lookup is not.
\<close>

definition resolveTargetEvent :: "env \<Rightarrow> room \<Rightarrow> string \<Rightarrow> error + matrix_event option" where
  "resolveTargetEvent en rm x =
     (case findEventById rm x of
        Hit fromTimeline \<Rightarrow> Inr (Some fromTimeline)
      | Fault \<Rightarrow> Inl (Error ''findEventById failed'')
      | Miss \<Rightarrow>
          (case fetchRoomEvent en (r_roomId rm) x of
             Hit raw \<Rightarrow> Inr (Some raw)
           | _ \<Rightarrow> Inr None))"

definition stored_msgtype :: "cme_content \<Rightarrow> string option" where
  "stored_msgtype c = (case c of MessageContent b m r md \<Rightarrow> Some m | _ \<Rightarrow> None)"

definition stored_body :: "cme_content \<Rightarrow> string option" where
  "stored_body c =
     (case c of MessageContent b m r md \<Rightarrow> Some b | ReactionContent b e t \<Rightarrow> Some b
      | ReceiptContent a t \<Rightarrow> None)"

text \<open>The reaction handler's fallback: the target as the events collection has it.\<close>

definition enriched_from_stored :: "env \<Rightarrow> room \<Rightarrow> string \<Rightarrow> string \<Rightarrow> doc \<Rightarrow> enriched_message" where
  "enriched_from_stored en rm sender targetEventId stored =
     \<lparr>em_id = targetEventId, em_serialized = targetEventId,
      em_from = (if senderId stored \<noteq> [] then senderId stored else sender),
      em_to = (if roomId stored \<noteq> [] then roomId stored else r_roomId rm),
      em_recipientId = None, em_author = None,
      em_type = getMessageType (or_lit (stored_msgtype (content stored)) ''m.text''),
      em_body = or_lit (stored_body (content stored)) ''[unknown]'',
      em_timestamp = num_or (timestamp stored) (now en),
      em_serialId = targetEventId,
      em_roomId = (if roomId stored \<noteq> [] then roomId stored else r_roomId rm),
      em_replyTo = None, em_media = None\<rparr>"

definition findOne_eventId :: "env \<Rightarrow> string \<Rightarrow> doc list \<Rightarrow> doc option" where
  "findOne_eventId en x c = (if store_up en then find (\<lambda>d. eventId d = Val x) c else None)"

text \<open>
  The tail of the reaction handler: the reaction is always stored; it is published when
  \<open>config.publishReactions\<close> is set and the target message could be enriched.
\<close>

definition store_reaction ::
    "env \<Rightarrow> room \<Rightarrow> matrix_event \<Rightarrow> string \<Rightarrow> enriched_reaction \<Rightarrow> enriched_message option \<Rightarrow>
     world \<Rightarrow> outcome" where
  "store_reaction en rm ev sender enrichedReaction enrichedMessage w =
     (let cme = toCanonicalEventFromReaction (cfg en) enrichedReaction (r_roomId rm) sender (ev_ts ev);
          w1 = insertCanonicalEvent (cfg en) (store_up en) (now en) cme w
      in case enrichedMessage of
           Some em \<Rightarrow>
             if publishReactions (cfg en)
             then publishEvent en (buildReactionEvent (cfg en) (now en) enrichedReaction em) w1
             else Returned w1
         | None \<Rightarrow> Returned w1)"

definition handleIncomingReaction_body :: "env \<Rightarrow> matrix_event \<Rightarrow> room \<Rightarrow> world \<Rightarrow> outcome" where
  "handleIncomingReaction_body en ev rm w =
     (if \<not> db_connected en then Threw (Error ''Database not connected'') w
      else case c_relates_to (ev_content ev) of
        None \<Rightarrow> Returned (printError (cfg en) ''Invalid reaction event structure'' w)
      | Some relation \<Rightarrow>
          if rel_type relation \<noteq> Some ''m.annotation''
          then Returned (printError (cfg en) ''Invalid reaction event structure'' w)
          else
            (case (ev_sender ev, rel_event_id relation, rel_key relation) of
               (Some sender, Some targetEventId, Some emoji) \<Rightarrow>
                 if sender = [] \<or> targetEventId = [] \<or> emoji = []
                 then Returned (printError (cfg en)
                        ''Invalid reaction event: missing sender, target event ID, or emoji'' w)
                 else
                   (let enrichedReaction = \<lparr>er_id = ev_id ev, er_msgId = targetEventId,
                          er_senderId = sender, er_reaction = emoji, er_timestamp = ev_ts ev\<rparr>
                    in case resolveTargetEvent en rm targetEventId of
                         Inl e \<Rightarrow> Threw e w
                       | Inr (Some targetEvent) \<Rightarrow>
                           (case translateMatrixEvent en targetEvent rm of
                              Inl e \<Rightarrow> Threw e w
                            | Inr em \<Rightarrow> store_reaction en rm ev sender enrichedReaction (Some em) w)
                       | Inr None \<Rightarrow>
                           store_reaction en rm ev sender enrichedReaction
                             (map_option (enriched_from_stored en rm sender targetEventId)
                                (findOne_eventId en targetEventId (events w))) w)
             | _ \<Rightarrow> Returned (printError (cfg en)
                        ''Invalid reaction event: missing sender, target event ID, or emoji'' w)))"

definition handleIncomingReaction :: "env \<Rightarrow> matrix_event \<Rightarrow> room \<Rightarrow> world \<Rightarrow> world" where
  "handleIncomingReaction en ev rm w =
     executeWithErrorLogging (cfg en) ''Matrix Event Reaction Error''
       (handleIncomingReaction_body en ev rm w)"

text \<open>The inner loop of the receipt handler: one target event, its readers in turn.\<close>

fun receipt_readers ::
    "env \<Rightarrow> room \<Rightarrow> string \<Rightarrow> enriched_message \<Rightarrow> (string \<times> int option) list \<Rightarrow> world \<Rightarrow> outcome" where
  "receipt_readers en rm targetEventId em [] w = Returned w"
| "receipt_readers en rm targetEventId em ((reader, tso) # rest) w =
     (let ts = (case tso of None \<Rightarrow> em_timestamp em | Some t \<Rightarrow> num_or t (em_timestamp em));
          cme = toCanonicalEventFromReceipt (cfg en) targetEventId (r_roomId rm) reader ts ''read'';
          w1 = insertCanonicalEvent (cfg en) (store_up en) (now en) cme w
      in if publishReceipts (cfg en) then
           (case publishEvent en (buildReceiptEvent (cfg en) (now en) targetEventId em ''ACK_READ'' ts) w1 of
              Threw e w2 \<Rightarrow> Threw e w2
            | Returned w2 \<Rightarrow> receipt_readers en rm targetEventId em rest w2)
         else receipt_readers en rm targetEventId em rest w1)"

text \<open>The outer loop: a target that is not in the room's history is skipped.\<close>

fun receipt_targets ::
    "env \<Rightarrow> room \<Rightarrow> (string \<times> (string \<times> int option) list) list \<Rightarrow> world \<Rightarrow> outcome" where
  "receipt_targets en rm [] w = Returned w"
| "receipt_targets en rm ((targetEventId, readers) # rest) w =
     (case findEventById rm targetEventId of
        Fault \<Rightarrow> Threw (Error ''findEventById failed'') w
      | Miss \<Rightarrow> receipt_targets en rm rest w
      | Hit targetEvent \<Rightarrow>
          (case translateMatrixEvent en targetEvent rm of
             Inl e \<Rightarrow> Threw e w
           | Inr em \<Rightarrow>
               (case receipt_readers en rm targetEventId em readers w of
                  Threw e w1 \<Rightarrow> Threw e w1
                | Returned w1 \<Rightarrow> receipt_targets en rm rest w1)))"

definition handleIncomingReceipt_body :: "env \<Rightarrow> matrix_event \<Rightarrow> room \<Rightarrow> world \<Rightarrow> outcome" where
  "handleIncomingReceipt_body en ev rm w =
     (if \<not> db_connected en then Threw (Error ''Database not connected'') w
      else receipt_targets en rm (ev_receipts ev) w)"

definition handleIncomingReceipt :: "env \<Rightarrow> matrix_event \<Rightarrow> room \<Rightarrow> world \<Rightarrow> world" where
  "handleIncomingReceipt en ev rm w =
     executeWithErrorLogging (cfg en) ''Matrix Event Receipt Error''
       (handleIncomingReceipt_body en ev rm w)"

section \<open>The verification session manager (matrix-app.ts)\<close>

datatype decision = Confirm | Cancel

text \<open>
  An optional asynchronous method of an SDK object: not there, or there and its promise
  resolves or rejects.
\<close>

datatype promise = NotAFunction | Resolves | Rejects

record verifier =
  v_ref :: nat
  v_transactionId :: "string option"
  v_confirm :: promise
  v_verify_resolves :: bool
  v_has_cancel :: bool

record sas =
  sas_confirm :: promise

record request =
  req_ref :: nat
  req_transactionId :: "string option"
  req_transaction_id :: "string option"

text \<open>
  The calls into the SDK, by call site: \<open>req.accept()\<close>; the \<open>verifier.on\<close>
  registrations of \<open>bindVerifierEventHandlers\<close>; the \<open>verifier.verify()\<close> that drives
  the handshake at the end of \<open>bindVerifierEventHandlers\<close>; \<open>confirm()\<close> on the SAS
  event or on the verifier; the \<open>verify()\<close> that follows a confirmation; and
  \<open>cancel()\<close>.
\<close>

datatype effect =
    AcceptRequest nat
  | AttachHandlers nat string
  | DriveVerify nat string
  | SasConfirm
  | VerifierConfirm nat
  | ConfirmVerify nat
  | VerifierCancel nat

text \<open>
  The module-level variables, and what the listeners close over: \<open>req_verifier\<close> is the
  \<open>verifier\<close> property of each request object (set by the SDK), \<open>accepting\<close> the request
  handlers suspended at \<open>await req.accept()\<close>, \<open>changeListeners\<close> the requests with a
  \<open>change\<close> listener, and \<open>handlers\<close> the verifiers with the three listeners of one
  \<open>bindVerifierEventHandlers\<close> call and the transaction id they close over. Lines
  written to the console are not part of this state.
\<close>

record vstate =
  activeVerifier :: "verifier option"
  activeSas :: "sas option"
  pendingVerifierDecision :: "decision option"
  boundTxns :: "string set"
  begunHandshakeTxns :: "string set"
  pendingVerificationRequests :: "string \<rightharpoonup> request"
  req_verifier :: "nat \<Rightarrow> verifier option"
  accepting :: "request list"
  changeListeners :: "request list"
  handlers :: "(verifier \<times> string) list"

definition init_state :: vstate where
  "init_state =
     \<lparr>activeVerifier = None, activeSas = None, pendingVerifierDecision = None,
      boundTxns = {}, begunHandshakeTxns = {}, pendingVerificationRequests = Map.empty,
      req_verifier = (\<lambda>r. None), accepting = [], changeListeners = [], handlers = []\<rparr>"

text \<open>Listeners run one after the other, each on the state the previous one left.\<close>

fun run_all :: "('s \<Rightarrow> 's \<times> 'e list) list \<Rightarrow> 's \<Rightarrow> 's \<times> 'e list" where
  "run_all [] s = (s, [])"
| "run_all (f # fs) s =
     (case f s of (s1, x1) \<Rightarrow> (case run_all fs s1 of (s2, x2) \<Rightarrow> (s2, x1 @ x2)))"

definition bindVerifierEventHandlers :: "verifier \<Rightarrow> string \<Rightarrow> vstate \<Rightarrow> vstate \<times> effect list" where
  "bindVerifierEventHandlers v txnId s =
     (if txnId = [] then (s, [])
      else if txnId \<in> boundTxns s then (s, [])
      else
        (let s1 = s\<lparr>boundTxns := insert txnId (boundTxns s), activeVerifier := Some v,
                     handlers := handlers s @ [(v, txnId)]\<rparr>
         in if txnId \<in> begunHandshakeTxns s1 then (s1, [AttachHandlers (v_ref v) txnId])
            else (s1\<lparr>begunHandshakeTxns := insert txnId (begunHandshakeTxns s1)\<rparr>,
                  [AttachHandlers (v_ref v) txnId, DriveVerify (v_ref v) txnId])))"

definition cleanup :: "string \<Rightarrow> vstate \<Rightarrow> vstate" where
  "cleanup txnId s =
     s\<lparr>activeVerifier := None, activeSas := None,
       boundTxns := boundTxns s - {txnId},
       begunHandshakeTxns := begunHandshakeTxns s - {txnId},
       pendingVerificationRequests := (pendingVerificationRequests s)(txnId := None),
       pendingVerifierDecision := None\<rparr>"

text \<open>The \<open>show_sas\<close> listener of one binding.\<close>

definition on_show_sas :: "verifier \<Rightarrow> string \<Rightarrow> sas \<Rightarrow> vstate \<Rightarrow> vstate \<times> effect list" where
  "on_show_sas v txnId ev s =
     (let s1 = s\<lparr>activeSas := Some ev\<rparr>
      in if pendingVerifierDecision s1 = Some Confirm then
           (s1\<lparr>pendingVerifierDecision := None\<rparr>,
            (case sas_confirm ev of
               NotAFunction \<Rightarrow> [ConfirmVerify (v_ref v)]
             | Resolves \<Rightarrow> [SasConfirm, ConfirmVerify (v_ref v)]
             | Rejects \<Rightarrow> [SasConfirm]))
         else (s1, []))"

text \<open>The \<open>change\<close> listener of one accepted request.\<close>

definition on_change :: "request \<Rightarrow> vstate \<Rightarrow> vstate \<times> effect list" where
  "on_change req s =
     (case req_verifier s (req_ref req) of
        None \<Rightarrow> (s, [])
      | Some v \<Rightarrow>
          (case or_else (v_transactionId v) (req_transactionId req) of
             None \<Rightarrow> (s, [])
           | Some tid \<Rightarrow>
               if tid = [] then (s, [])
               else if tid \<in> boundTxns s then (s, [])
               else bindVerifierEventHandlers v tid s))"

text \<open>The \<open>crypto.verification.request\<close> listener up to \<open>await req.accept()\<close>.\<close>

definition on_verification_request :: "request \<Rightarrow> vstate \<Rightarrow> vstate \<times> effect list" where
  "on_verification_request req s =
     (case activeVerifier s of
        Some busy \<Rightarrow> (s, [])
      | None \<Rightarrow>
          (let s1 = (case req_transactionId req of
                       Some txnId \<Rightarrow>
                         if txnId \<noteq> []
                         then s\<lparr>pendingVerificationRequests :=
                                  (pendingVerificationRequests s)(txnId \<mapsto> req)\<rparr>
                         else s
                     | None \<Rightarrow> s)
           in (s1\<lparr>accepting := accepting s1 @ [req]\<rparr>, [AcceptRequest (req_ref req)])))"

text \<open>Its continuation, once \<open>accept()\<close> has settled: the \<open>change\<close> listener is attached.\<close>

definition on_accept_settled :: "nat \<Rightarrow> vstate \<Rightarrow> vstate \<times> effect list" where
  "on_accept_settled r s =
     (case find (\<lambda>req. req_ref req = r) (accepting s) of
        None \<Rightarrow> (s, [])
      | Some req \<Rightarrow>
          (s\<lparr>accepting := remove1 req (accepting s),
             changeListeners := changeListeners s @ [req]\<rparr>, []))"

definition start_txn :: "verifier \<Rightarrow> request option \<Rightarrow> string option" where
  "start_txn v req =
     or_else (v_transactionId v)
       (case req of None \<Rightarrow> None
        | Some r \<Rightarrow> or_else (req_transactionId r) (req_transaction_id r))"

text \<open>The \<open>crypto.verification.start\<close> listener.\<close>

definition on_verification_start :: "verifier \<Rightarrow> request option \<Rightarrow> vstate \<Rightarrow> vstate \<times> effect list" where
  "on_verification_start v req s =
     (case start_txn v req of
        None \<Rightarrow> (s, [])
      | Some txnId \<Rightarrow>
          if txnId = [] then (s, [])
          else if txnId \<in> boundTxns s then (s, [])
          else bindVerifierEventHandlers v txnId s)"

text \<open>The to-device listener: event type and \<open>content.transaction_id\<close>.\<close>

definition on_to_device :: "string \<Rightarrow> string option \<Rightarrow> vstate \<Rightarrow> vstate \<times> effect list" where
  "on_to_device eventType txn s =
     (if eventType = ''m.room_key.withheld'' then (s, [])
      else if take 19 eventType \<noteq> ''m.key.verification.'' then (s, [])
      else case txn of
        None \<Rightarrow> (s, [])
      | Some txnId \<Rightarrow>
          if eventType = ''m.key.verification.start'' \<and> txnId \<noteq> [] \<and> txnId \<notin> boundTxns s then
            (case pendingVerificationRequests s txnId of
               None \<Rightarrow> (s, [])
             | Some req \<Rightarrow>
                 (case req_verifier s (req_ref req) of
                    Some v \<Rightarrow> bindVerifierEventHandlers v txnId s
                  | None \<Rightarrow> (s, [])))
          else (s, []))"

text \<open>The readline listener.\<close>

definition confirm_call :: "verifier \<Rightarrow> vstate \<Rightarrow> bool \<times> effect list" where
  "confirm_call av s =
     (case (case activeSas s of None \<Rightarrow> NotAFunction | Some sa \<Rightarrow> sas_confirm sa) of
        Resolves \<Rightarrow> (True, [SasConfirm])
      | Rejects \<Rightarrow> (False, [SasConfirm])
      | NotAFunction \<Rightarrow>
          (case v_confirm av of
             Resolves \<Rightarrow> (True, [VerifierConfirm (v_ref av)])
           | Rejects \<Rightarrow> (False, [VerifierConfirm (v_ref av)])
           | NotAFunction \<Rightarrow> (True, [])))"

definition on_line :: "string \<Rightarrow> vstate \<Rightarrow> vstate \<times> effect list" where
  "on_line line s =
     (let text = toLowerCase (trim line) in
      case activeVerifier s of
        None \<Rightarrow>
          if text = ''y'' \<or> text = ''yes'' then (s\<lparr>pendingVerifierDecision := Some Confirm\<rparr>, [])
          else (s, [])
      | Some av \<Rightarrow>
          if text = ''y'' \<or> text = ''yes'' then
            (case confirm_call av s of
               (False, xs) \<Rightarrow> (s, xs)
             | (True, xs) \<Rightarrow>
                 if v_verify_resolves av
                 then (s\<lparr>activeSas := None\<rparr>, xs @ [ConfirmVerify (v_ref av)])
                 else (s, xs @ [ConfirmVerify (v_ref av)]))
          else if text = ''n'' \<or> text = ''no'' then
            (s, if v_has_cancel av then [VerifierCancel (v_ref av)] else [])
          else (s, []))"

text \<open>
  What the SDK and the operator can do: emit a verification request, settle its
  \<open>accept()\<close>, set a request's verifier and emit \<open>change\<close>, emit
  \<open>crypto.verification.start\<close>, deliver a to-device event, make a verifier emit
  \<open>show_sas\<close>, \<open>done\<close> or \<open>cancel\<close>, and type a line.
\<close>

datatype vevent =
    VerificationRequest request
  | AcceptSettled nat
  | RequestChange nat "verifier option"
  | VerificationStart verifier "request option"
  | ToDeviceEvent string "string option"
  | ShowSas nat sas
  | Done nat
  | CancelEvent nat
  | Line string

definition bindings_of :: "nat \<Rightarrow> vstate \<Rightarrow> (verifier \<times> string) list" where
  "bindings_of r s = filter (\<lambda>(v, t). v_ref v = r) (handlers s)"

fun step :: "vstate \<Rightarrow> vevent \<Rightarrow> vstate \<times> effect list" where
  "step s (VerificationRequest req) = on_verification_request req s"
| "step s (AcceptSettled r) = on_accept_settled r s"
| "step s (RequestChange r v) =
     run_all (map on_change (filter (\<lambda>req. req_ref req = r) (changeListeners s)))
       (s\<lparr>req_verifier := (req_verifier s)(r := v)\<rparr>)"
| "step s (VerificationStart v req) = on_verification_start v req s"
| "step s (ToDeviceEvent eventType txn) = on_to_device eventType txn s"
| "step s (ShowSas r ev) = run_all (map (\<lambda>(v, t). on_show_sas v t ev) (bindings_of r s)) s"
| "step s (Done r) = run_all (map (\<lambda>(v, t) s'. (cleanup t s', [])) (bindings_of r s)) s"
| "step s (CancelEvent r) = run_all (map (\<lambda>(v, t) s'. (cleanup t s', [])) (bindings_of r s)) s"
| "step s (Line line) = on_line line s"

fun run :: "vstate \<Rightarrow> vevent list \<Rightarrow> vstate \<times> effect list" where
  "run s [] = (s, [])"
| "run s (e # es) =
     (case step s e of (s1, x1) \<Rightarrow> (case run s1 es of (s2, x2) \<Rightarrow> (s2, x1 @ x2)))"

text \<open>Counting the bind and drive calls made for a transaction.\<close>

fun is_bind :: "string \<Rightarrow> effect \<Rightarrow> bool" where
  "is_bind t (AttachHandlers v t') = (t' = t)"
| "is_bind t _ = False"

fun is_drive :: "string \<Rightarrow> effect \<Rightarrow> bool" where
  "is_drive t (DriveVerify v t') = (t' = t)"
| "is_drive t _ = False"

definition binds :: "string \<Rightarrow> effect list \<Rightarrow> nat" where
  "binds t xs = length (filter (is_bind t) xs)"

definition drives :: "string \<Rightarrow> effect list \<Rightarrow> nat" where
  "drives t xs = length (filter (is_drive t) xs)"

text \<open>An event completes transaction \<open>t\<close> when it runs the cleanup of a binding of \<open>t\<close>.\<close>

fun completes :: "string \<Rightarrow> vstate \<Rightarrow> vevent \<Rightarrow> bool" where
  "completes t s (Done r) = (t \<in> snd ` set (bindings_of r s))"
| "completes t s (CancelEvent r) = (t \<in> snd ` set (bindings_of r s))"
| "completes t s _ = False"

fun no_completion :: "string \<Rightarrow> vstate \<Rightarrow> vevent list \<Rightarrow> bool" where
  "no_completion t s [] = True"
| "no_completion t s (e # es) = (\<not> completes t s e \<and> no_completion t (fst (step s e)) es)"



text \<open>The per-transaction state of \<open>t\<close> has been purged.\<close>

definition purged :: "string \<Rightarrow> vstate \<Rightarrow> bool" where
  "purged t s \<longleftrightarrow>
     t \<notin> boundTxns s \<and> t \<notin> begunHandshakeTxns s \<and> pendingVerificationRequests s t = None"

section \<open>Key requests for undecryptable events (matrix-app.ts)\<close>

text \<open>
  What \<open>tryRequestMissingKeys\<close> reads from an event: \<open>session_id\<close> and
  \<open>algorithm\<close> of the wire content, \<open>getRoomId()\<close> and \<open>getSender()\<close>; \<open>ee_ref\<close>
  names the event in the calls made for it.
\<close>

record encrypted_event =
  ee_ref :: nat
  wc_session_id :: "string option"
  wc_algorithm :: "string option"
  ee_roomId :: "string option"
  ee_sender :: "string option"

datatype key_effect =
    CancelAndResend nat
  | CryptoRequestKeys nat
  | ClientRequestKeys nat
  | EnsureOlmSessions "string list"

text \<open>
  A call of \<open>tryRequestMissingKeys\<close> that has passed the duplicate check and is
  suspended at one of its three \<open>await\<close>s: the event, the key it will add, the users
  it will ensure sessions for, and whether \<open>crypto.requestKeysForEvent\<close> rejects.
\<close>

datatype stage = AwaitCancelAndResend | AwaitCryptoRequest | AwaitClientRequest

record pending_call =
  pc_stage :: stage
  pc_event :: nat
  pc_key :: string
  pc_ids :: "string list"
  pc_rejects :: bool

text \<open>
  \<open>requestedKeySessions\<close>, the pending \<open>setTimeout\<close> callbacks with their due times,
  the suspended calls, and the clock in milliseconds.
\<close>

record kstate =
  requestedKeySessions :: "string set"
  timers :: "(int \<times> string) list"
  suspended :: "pending_call list"
  clock :: int

definition kinit :: kstate where
  "kinit = \<lparr>requestedKeySessions = {}, timers = [], suspended = [], clock = 0\<rparr>"

definition key_room :: "encrypted_event \<Rightarrow> string option \<Rightarrow> string option" where
  "key_room ev roomIdHint = (case ee_roomId ev of Some r \<Rightarrow> Some r | None \<Rightarrow> roomIdHint)"

definition dedupeKey :: "encrypted_event \<Rightarrow> string option \<Rightarrow> string option" where
  "dedupeKey ev roomIdHint =
     (case (wc_session_id ev, key_room ev roomIdHint) of
        (Some sid, Some rid) \<Rightarrow>
          if sid \<noteq> [] \<and> rid \<noteq> [] then Some (rid @ ''|'' @ sid) else None
      | _ \<Rightarrow> None)"

definition olm_ids :: "config \<Rightarrow> encrypted_event \<Rightarrow> string list" where
  "olm_ids c ev =
     (case ee_sender ev of Some s \<Rightarrow> (if s \<noteq> [] then [s] else []) | None \<Rightarrow> []) @
     (if matrixUserId c \<noteq> [] then [matrixUserId c] else [])"

text \<open>
  \<open>tryRequestMissingKeys\<close> up to its first \<open>await\<close>: the duplicate check, then, when
  session id, algorithm and room id are there, the call that cancels and resends earlier
  requests. The set is not written here. Without those fields only the Olm sessions are
  ensured.
\<close>

definition tryRequestMissingKeys_begin ::
    "config \<Rightarrow> encrypted_event \<Rightarrow> string option \<Rightarrow> bool \<Rightarrow> kstate \<Rightarrow> kstate \<times> key_effect list" where
  "tryRequestMissingKeys_begin c ev roomIdHint rejects s =
     (case dedupeKey ev roomIdHint of
        Some k \<Rightarrow>
          if k \<in> requestedKeySessions s then (s, [])
          else if \<not> truthy (wc_algorithm ev) then (s, [EnsureOlmSessions (olm_ids c ev)])
          else
            (s\<lparr>suspended := suspended s @
                 [\<lparr>pc_stage = AwaitCancelAndResend, pc_event = ee_ref ev, pc_key = k,
                   pc_ids = olm_ids c ev, pc_rejects = rejects\<rparr>]\<rparr>,
             [CancelAndResend (ee_ref ev)])
      | None \<Rightarrow> (s, [EnsureOlmSessions (olm_ids c ev)]))"

text \<open>
  The last part of the call, after the key request has settled: the key is added, its
  removal is scheduled ten minutes later, and the Olm sessions are ensured.
\<close>

definition record_request :: "nat \<Rightarrow> pending_call \<Rightarrow> kstate \<Rightarrow> kstate \<times> key_effect list" where
  "record_request i p s =
     (s\<lparr>requestedKeySessions := insert (pc_key p) (requestedKeySessions s),
        timers := timers s @ [(clock s + 10 * 60 * 1000, pc_key p)],
        suspended := take i (suspended s) @ drop (Suc i) (suspended s)\<rparr>,
      [EnsureOlmSessions (pc_ids p)])"

text \<open>
  The suspended call number \<open>i\<close> runs to its next \<open>await\<close>: after the cancel-and-resend
  it asks the crypto module for the keys; if that rejected it asks the client; then it
  records the request.
\<close>

definition tryRequestMissingKeys_resume :: "nat \<Rightarrow> kstate \<Rightarrow> kstate \<times> key_effect list" where
  "tryRequestMissingKeys_resume i s =
     (if i < length (suspended s) then
        (let p = suspended s ! i in
         case pc_stage p of
           AwaitCancelAndResend \<Rightarrow>
             (s\<lparr>suspended := (suspended s)[i := p\<lparr>pc_stage := AwaitCryptoRequest\<rparr>]\<rparr>,
              [CryptoRequestKeys (pc_event p)])
         | AwaitCryptoRequest \<Rightarrow>
             if pc_rejects p
             then (s\<lparr>suspended := (suspended s)[i := p\<lparr>pc_stage := AwaitClientRequest\<rparr>]\<rparr>,
                   [ClientRequestKeys (pc_event p)])
             else record_request i p s
         | AwaitClientRequest \<Rightarrow> record_request i p s)
      else (s, []))"

text \<open>Time passes: the callbacks that are due delete their keys.\<close>

definition advance_to :: "int \<Rightarrow> kstate \<Rightarrow> kstate" where
  "advance_to t s =
     (let t' = max t (clock s);
          due = filter (\<lambda>(d, k). d \<le> t') (timers s)
      in s\<lparr>clock := t',
           requestedKeySessions := requestedKeySessions s - snd ` set due,
           timers := filter (\<lambda>(d, k). \<not> d \<le> t') (timers s)\<rparr>)"

datatype kevent =
    Undecryptable encrypted_event "string option" bool
  | Settled nat
  | AdvanceTo int

fun kstep :: "config \<Rightarrow> kstate \<Rightarrow> kevent \<Rightarrow> kstate \<times> key_effect list" where
  "kstep c s (Undecryptable ev roomIdHint rejected) = tryRequestMissingKeys_begin c ev roomIdHint rejected s"
| "kstep c s (Settled i) = tryRequestMissingKeys_resume i s"
| "kstep c s (AdvanceTo t) = (advance_to t s, [])"

fun krun :: "config \<Rightarrow> kstate \<Rightarrow> kevent list \<Rightarrow> kstate \<times> key_effect list" where
  "krun c s [] = (s, [])"
| "krun c s (e # es) =
     (case kstep c s e of (s1, x1) \<Rightarrow> (case krun c s1 es of (s2, x2) \<Rightarrow> (s2, x1 @ x2)))"

fun is_key_request :: "key_effect \<Rightarrow> bool" where
  "is_key_request (CryptoRequestKeys r) = True"
| "is_key_request _ = False"

definition key_requests :: "key_effect list \<Rightarrow> nat" where
  "key_requests xs = length (filter is_key_request xs)"

section \<open>Notions used in the proofs about the verification manager\<close>

text \<open>
  A transaction enters a guard set at most once along a piece of a run: membership is
  kept, and the number of calls counted is one if it entered and zero otherwise.
\<close>

definition enters :: "bool \<Rightarrow> bool \<Rightarrow> nat \<Rightarrow> bool" where
  "enters before after n \<longleftrightarrow> (before \<longrightarrow> after) \<and> n = (if after \<and> \<not> before then 1 else 0)"

definition once :: "string \<Rightarrow> vstate \<Rightarrow> vstate \<times> effect list \<Rightarrow> bool" where
  "once t s r \<longleftrightarrow>
     enters (t \<in> boundTxns s) (t \<in> boundTxns (fst r)) (binds t (snd r)) \<and>
     enters (t \<in> begunHandshakeTxns s) (t \<in> begunHandshakeTxns (fst r)) (drives t (snd r))"


text \<open>The calls a queued confirmation makes when the SAS \<open>ev\<close> is shown.\<close>

definition confirm_effects :: "nat \<Rightarrow> sas \<Rightarrow> effect list" where
  "confirm_effects r ev =
     (case sas_confirm ev of
        NotAFunction \<Rightarrow> [ConfirmVerify r]
      | Resolves \<Rightarrow> [SasConfirm, ConfirmVerify r]
      | Rejects \<Rightarrow> [SasConfirm])"

text \<open>No step writes a cancel decision into the pending slot.\<close>

definition no_cancel_queued :: "vstate \<Rightarrow> bool" where
  "no_cancel_queued s \<longleftrightarrow> pendingVerifierDecision s \<noteq> Some Cancel"

text \<open>
  An invariant of the events collection: the mappers give a receipt no event id, so no
  stored receipt carries one.
\<close>

definition receipts_unkeyed :: "doc list \<Rightarrow> bool" where
  "receipts_unkeyed c \<longleftrightarrow> (\<forall>d\<in>set c. etype d = ''receipt'' \<longrightarrow> eventId d = Absent)"

section \<open>Example inputs\<close>

definition msg1 :: canonical_event where
  "msg1 = \<lparr>source = ''messenger'', arcUserId = ''@me:hs'', eventId = Val ''$E1'', roomId = ''!R'',
     senderId = ''@A'', timestamp = 1000, etype = ''message'', encrypted = True,
     content = MessageContent ''[No content]'' ''m.text'' None None, relatesTo = None,
     platform = ''matrix''\<rparr>"

definition world0 :: world where
  "world0 = \<lparr>events = [], contacts = [], bus = [], errors = [], decrypt_listeners = []\<rparr>"


definition cfg1 :: config where
  "cfg1 = load_config \<lparr>MATRIX_USER_ID = Some ''@me:hs'', ARC_USER_ID = Some ''arc-me'',
     PUBLISH_REACTIONS = None, PUBLISH_RECEIPTS = None, LOG_LEVEL = None\<rparr>"

definition env1 :: env where
  "env1 = \<lparr>cfg = cfg1, fetchRoomEvent = (\<lambda>r x. Miss), getProfileInfo = (\<lambda>u. ProfileFails),
     db_connected = True, store_up = True, broker_up = True, now = 5000\<rparr>"

definition text_content :: "string \<Rightarrow> relates_to option \<Rightarrow> content" where
  "text_content b r = Content (Some b) None (Some ''m.text'') None None None r False"

definition ev_orig :: matrix_event where
  "ev_orig = \<lparr>ev_id = Some ''$X'', ev_sender = Some ''@bob:hs'', ev_ts = 900,
     ev_type = ''m.room.message'', ev_content = text_content ''original'' None, ev_clear = None,
     ev_decryption_failure = False, ev_receipts = []\<rparr>"

definition ev_reply :: matrix_event where
  "ev_reply = \<lparr>ev_id = Some ''$E2'', ev_sender = Some ''@alice:hs'', ev_ts = 1000,
     ev_type = ''m.room.message'',
     ev_content = text_content ''re''
        (Some \<lparr>m_in_reply_to = Some ''$X'', in_reply_to = None, rel_event_id = None,
               rel_type = None, rel_key = None\<rparr>),
     ev_clear = None, ev_decryption_failure = False, ev_receipts = []\<rparr>"

definition ev_no_sender :: matrix_event where
  "ev_no_sender = ev_orig\<lparr>ev_sender := None\<rparr>"

definition room_empty :: room where
  "room_empty = \<lparr>r_roomId = ''!R'', findEventById = (\<lambda>x. Miss), canonicalAlias = None,
     guessDMUserId = Some ''@bob:hs'', joined_members = [Some ''@me:hs'', Some ''@bob:hs''],
     members_load_ok = True\<rparr>"

definition room_hist :: room where
  "room_hist = room_empty\<lparr>findEventById := (\<lambda>x. if x = ''$X'' then Hit ev_orig else Miss)\<rparr>"

text \<open>The store after the message \<open>$X\<close> has been ingested.\<close>

definition world_x :: world where
  "world_x = handleIncomingMessage env1 ev_orig room_empty world0"

definition em_reply_hist :: enriched_message where
  "em_reply_hist =
     \<lparr>em_id = ''$E2'', em_serialized = ''$E2'', em_from = ''@alice:hs'', em_to = ''@me:hs'',
      em_recipientId = Some ''@me:hs'', em_author = Some ''@alice:hs'', em_type = ''chat'',
      em_body = ''re'', em_timestamp = 1000, em_serialId = ''$E2'', em_roomId = ''!R'',
      em_replyTo = Some \<lparr>rt_eventId = ''$X'', rt_senderId = Some ''@bob:hs'',
                           rt_body = Some ''original'', rt_timestamp = Some 900\<rparr>,
      em_media = None\<rparr>"



definition pe1 :: process_env where
  "pe1 = \<lparr>MATRIX_USER_ID = Some ''@me:hs'', ARC_USER_ID = Some ''arc-me'',
     PUBLISH_REACTIONS = None, PUBLISH_RECEIPTS = None, LOG_LEVEL = None\<rparr>"

definition env_silent :: env where
  "env_silent = env1\<lparr>cfg := load_config (pe1\<lparr>LOG_LEVEL := Some ''silent''\<rparr>)\<rparr>"

definition annotation_X :: relates_to where
  "annotation_X = \<lparr>m_in_reply_to = None, in_reply_to = None, rel_event_id = Some ''$X'',
     rel_type = Some ''m.annotation'', rel_key = Some ''+1''\<rparr>"

definition ev_react :: matrix_event where
  "ev_react = \<lparr>ev_id = Some ''$R1'', ev_sender = Some ''@alice:hs'', ev_ts = 1100,
     ev_type = ''m.reaction'',
     ev_content = Content None None None None None None (Some annotation_X) False,
     ev_clear = None, ev_decryption_failure = False, ev_receipts = []\<rparr>"

definition ev_react_no_id :: matrix_event where
  "ev_react_no_id = ev_react\<lparr>ev_id := None\<rparr>"

definition ev_react_no_sender :: matrix_event where
  "ev_react_no_sender = ev_react\<lparr>ev_sender := None\<rparr>"



definition env_pub :: env where
  "env_pub = env1\<lparr>cfg := cfg1\<lparr>publishReceipts := True\<rparr>\<rparr>"

definition v1 :: verifier where
  "v1 = \<lparr>v_ref = 1, v_transactionId = Some ''t1'', v_confirm = NotAFunction,
     v_verify_resolves = True, v_has_cancel = True\<rparr>"

definition v2 :: verifier where
  "v2 = \<lparr>v_ref = 2, v_transactionId = Some ''t2'', v_confirm = NotAFunction,
     v_verify_resolves = True, v_has_cancel = True\<rparr>"

definition r1 :: request where
  "r1 = \<lparr>req_ref = 10, req_transactionId = Some ''t1'', req_transaction_id = None\<rparr>"

definition r2 :: request where
  "r2 = \<lparr>req_ref = 20, req_transactionId = Some ''t2'', req_transaction_id = None\<rparr>"

definition r3 :: request where
  "r3 = \<lparr>req_ref = 30, req_transactionId = Some ''t3'', req_transaction_id = None\<rparr>"





definition trace_bound :: "vevent list" where
  "trace_bound = [VerificationRequest r1, AcceptSettled 10, VerificationStart v1 (Some r1)]"

definition trace_done :: "vevent list" where
  "trace_done = trace_bound @ [Done 1]"

definition sas_ok :: sas where
  "sas_ok = \<lparr>sas_confirm = Resolves\<rparr>"

text \<open>The operator types yes, then no, before any verifier is active; then the SAS is shown twice.\<close>

definition trace_queued :: "vevent list" where
  "trace_queued = [Line '' Yes '', Line ''no'', VerificationRequest r1, AcceptSettled 10,
     VerificationStart v1 (Some r1)]"

definition enc1 :: encrypted_event where
  "enc1 = \<lparr>ee_ref = 1, wc_session_id = Some ''S1'', wc_algorithm = Some ''m.megolm.v1.aes-sha2'',
     ee_roomId = Some ''!R'', ee_sender = Some ''@alice:hs''\<rparr>"

definition enc2 :: encrypted_event where
  "enc2 = enc1\<lparr>ee_ref := 2\<rparr>"

text \<open>
  Two undecryptable events of one Megolm session arrive in one batch: both calls pass the
  duplicate check before either has added the key.
\<close>

definition trace_batch :: "kevent list" where
  "trace_batch =
     [Undecryptable enc1 None False, Undecryptable enc2 None False,
      Settled 0, Settled 1, Settled 0, Settled 0]"

text \<open>
  The same two events one after the other; the second is tried again just before and
  just after the ten minutes have passed.
\<close>

definition trace_sequential :: "kevent list" where
  "trace_sequential =
     [Undecryptable enc1 None False, Settled 0, Settled 0, Undecryptable enc2 None False,
      AdvanceTo 599999, Undecryptable enc2 None False,
      AdvanceTo 600000, Undecryptable enc2 None False, Settled 0, Settled 0]"

section \<open>What an error line changes\<close>

lemma events_printError [simp]: "events (printError c t w) = events w"
  by (simp add: printError_def)

lemma bus_printError [simp]: "bus (printError c t w) = bus w"
  by (simp add: printError_def)

lemma contacts_printError [simp]: "contacts (printError c t w) = contacts w"
  by (simp add: printError_def)

lemma decrypt_listeners_printError [simp]:
  "decrypt_listeners (printError c t w) = decrypt_listeners w"
  by (simp add: printError_def)

lemma errors_printError:
  "errors (printError c t w) = errors w @ (if isEnabled c ''error'' then [t] else [])"
  by (simp add: printError_def)

lemma isEnabled_error:
  "isEnabled c ''error'' \<longleftrightarrow>
     or_lit (Some (logLevel c)) ''info'' \<in> {''error'', ''warn'', ''info'', ''debug''}"
  by (simp add: isEnabled_def LEVELS_def)

section \<open>The store writer is an idempotent upsert\<close>


lemma update_first_None: "update_first p g xs = None \<longleftrightarrow> (\<forall>x\<in>set xs. \<not> p x)"
  by (induction xs) auto

lemma update_first_length: "update_first p g xs = Some ys \<Longrightarrow> length ys = length xs"
  by (induction xs arbitrary: ys) (auto split: if_splits)

lemma update_first_find:
  "update_first p g xs = Some ys \<Longrightarrow> (\<And>x. p x \<Longrightarrow> p (g x)) \<Longrightarrow>
   \<exists>d. find p xs = Some d \<and> find p ys = Some (g d)"
  by (induction xs arbitrary: ys) (auto split: if_splits)

lemma update_first_count:
  "update_first p g xs = Some ys \<Longrightarrow> (\<And>x. p x \<Longrightarrow> p (g x)) \<Longrightarrow>
   length (filter p ys) = length (filter p xs)"
  by (induction xs arbitrary: ys) (auto split: if_splits)

lemma matches_apply_set:
  "matches (build_filter e) (apply_set \<lparr>u_setOnInsert = a, u_set = e, u_updatedAt = t\<rparr> d)"
  by (auto simp: matches_def build_filter_def apply_set_def has_string_id_def on_field_def
      rel_id_of_def Let_def split: field.splits option.splits)

lemma filter_none: "(\<forall>x\<in>set xs. \<not> p x) \<Longrightarrow> filter p xs = []"
  by (induction xs) auto

lemma find_none: "(\<forall>x\<in>set xs. \<not> p x) \<Longrightarrow> find p (xs @ [y]) = (if p y then Some y else None)"
  by (induction xs) auto

lemma events_insert_ok:
  "events (insertCanonicalEvent cf True t e w) =
     (case update_first (matches (build_filter e))
             (apply_set \<lparr>u_setOnInsert = t, u_set = e, u_updatedAt = t\<rparr>) (events w) of
        Some c \<Rightarrow> c
      | None \<Rightarrow> events w @ [apply_set \<lparr>u_setOnInsert = t, u_set = e, u_updatedAt = t\<rparr>
                   (base_doc (build_filter e) \<lparr>u_setOnInsert = t, u_set = e, u_updatedAt = t\<rparr>)])"
  by (simp add: insertCanonicalEvent_def printError_def updateOne_def Let_def split: option.splits)

lemma insert_has_match:
  "\<exists>d \<in> set (events (insertCanonicalEvent cf True t e w)). matches (build_filter e) d"
proof (cases "update_first (matches (build_filter e))
             (apply_set \<lparr>u_setOnInsert = t, u_set = e, u_updatedAt = t\<rparr>) (events w)")
  case None
  then show ?thesis by (simp add: events_insert_ok matches_apply_set)
next
  case (Some c)
  from update_first_find[OF Some] matches_apply_set
  obtain d where "find (matches (build_filter e)) c = Some (apply_set \<lparr>u_setOnInsert = t, u_set = e, u_updatedAt = t\<rparr> d)"
    by metis
  then show ?thesis using Some
    by (auto simp: events_insert_ok find_Some_iff)
qed


text \<open>
  C1. Two calls of \<open>insertCanonicalEvent\<close> with the same logical event (the same
  identity filter, any content), at times \<open>t1\<close> and \<open>t2\<close>: the second call adds no
  record and the number of records under that identity stays the same; it rewrites the
  record of the first call with the fields of the second event and \<open>updatedAt = t2\<close>,
  and leaves \<open>ingestedAt\<close> alone. When no record had that identity before, exactly one
  has it afterwards, with \<open>ingestedAt = t1\<close> and \<open>updatedAt = t2\<close>.
\<close>

theorem insertCanonicalEvent_idempotent:
  assumes same: "build_filter e2 = build_filter e1"
  shows "let f = build_filter e1;
             w1 = insertCanonicalEvent cf True t1 e1 w;
             w2 = insertCanonicalEvent cf True t2 e2 w1
         in length (events w2) = length (events w1) \<and>
            length (filter (matches f) (events w2)) = length (filter (matches f) (events w1)) \<and>
            (\<exists>d1 d2. find (matches f) (events w1) = Some d1 \<and>
                     find (matches f) (events w2) = Some d2 \<and>
                     d2 = apply_set \<lparr>u_setOnInsert = t2, u_set = e2, u_updatedAt = t2\<rparr> d1 \<and>
                     updatedAt d2 = t2 \<and> ingestedAt d2 = ingestedAt d1 \<and>
                     content d2 = content e2 \<and> encrypted d2 = encrypted e2) \<and>
            ((\<forall>d\<in>set (events w). \<not> matches f d) \<longrightarrow>
               (\<exists>d2. filter (matches f) (events w2) = [d2] \<and>
                     ingestedAt d2 = t1 \<and> updatedAt d2 = t2))"
proof -
  define f where "f = build_filter e1"
  define w1 where "w1 = insertCanonicalEvent cf True t1 e1 w"
  define w2 where "w2 = insertCanonicalEvent cf True t2 e2 w1"
  define u2 where "u2 = \<lparr>u_setOnInsert = t2, u_set = e2, u_updatedAt = t2\<rparr>"
  have keep: "\<And>d. matches f d \<Longrightarrow> matches f (apply_set u2 d)"
    using matches_apply_set[of e2 t2 t2] same by (simp add: f_def u2_def)
  have "\<exists>d\<in>set (events w1). matches f d"
    unfolding w1_def f_def by (rule insert_has_match)
  then obtain c where c: "update_first (matches f) (apply_set u2) (events w1) = Some c"
    using update_first_None[of "matches f" "apply_set u2" "events w1"] by fastforce
  have ev2: "events w2 = c"
    using c same by (simp add: w2_def events_insert_ok f_def u2_def)
  have len: "length (events w2) = length (events w1)"
    using update_first_length[OF c] ev2 by simp
  have cnt: "length (filter (matches f) (events w2)) = length (filter (matches f) (events w1))"
    using update_first_count[OF c keep] ev2 by simp
  obtain d1 where d1: "find (matches f) (events w1) = Some d1"
    and d2: "find (matches f) (events w2) = Some (apply_set u2 d1)"
    using update_first_find[OF c keep] ev2 by auto
  have fields: "updatedAt (apply_set u2 d1) = t2" "ingestedAt (apply_set u2 d1) = ingestedAt d1"
    "content (apply_set u2 d1) = content e2" "encrypted (apply_set u2 d1) = encrypted e2"
    by (simp_all add: apply_set_def u2_def Let_def)
  have fresh: "\<exists>d2. filter (matches f) (events w2) = [d2] \<and> ingestedAt d2 = t1 \<and> updatedAt d2 = t2"
    if none: "\<forall>d\<in>set (events w). \<not> matches f d"
  proof -
    define n1 where "n1 = apply_set \<lparr>u_setOnInsert = t1, u_set = e1, u_updatedAt = t1\<rparr>
        (base_doc f \<lparr>u_setOnInsert = t1, u_set = e1, u_updatedAt = t1\<rparr>)"
    have m1: "matches f n1" unfolding n1_def f_def by (rule matches_apply_set)
    have e1: "events w1 = events w @ [n1]"
      using none update_first_None[of "matches f" _ "events w"]
      by (simp add: w1_def events_insert_ok f_def n1_def)
    have "find (matches f) (events w1) = Some n1"
      using none m1 by (simp add: e1 find_none)
    then have "d1 = n1" using d1 by simp
    have "filter (matches f) (events w1) = [n1]"
      using none m1 by (simp add: e1 filter_none)
    then have l1: "length (filter (matches f) (events w2)) = 1" using cnt by simp
    have "apply_set u2 d1 \<in> set (filter (matches f) (events w2))"
      using d2 by (auto simp: find_Some_iff)
    then have "filter (matches f) (events w2) = [apply_set u2 d1]"
      using l1 by (cases "filter (matches f) (events w2)") auto
    moreover have "ingestedAt n1 = t1"
      by (simp add: n1_def apply_set_def base_doc_def Let_def)
    ultimately show ?thesis using fields \<open>d1 = n1\<close> by simp
  qed
  show ?thesis
    unfolding Let_def
    using len cnt d1 d2 fields fresh
    unfolding f_def w1_def w2_def u2_def by blast
qed

theorem insertCanonicalEvent_idempotent_witness:
  "build_filter (msg1\<lparr>encrypted := False, content := MessageContent ''hi'' ''m.text'' None None\<rparr>)
     = build_filter msg1 \<and>
   events world0 = [] \<and>
   (\<exists>d2. filter (matches (build_filter msg1))
           (events (insertCanonicalEvent cfg1 True 2000
              (msg1\<lparr>encrypted := False, content := MessageContent ''hi'' ''m.text'' None None\<rparr>)
              (insertCanonicalEvent cfg1 True 1000 msg1 world0))) = [d2] \<and>
         ingestedAt d2 = 1000 \<and> updatedAt d2 = 2000)"
proof -
  have h: "build_filter (msg1\<lparr>encrypted := False, content := MessageContent ''hi'' ''m.text'' None None\<rparr>)
     = build_filter msg1"
    by (simp add: build_filter_def msg1_def has_string_id_def)
  have n: "\<forall>d\<in>set (events world0). \<not> matches (build_filter msg1) d"
    by (simp add: world0_def)
  have z: "events world0 = []"
    by (simp add: world0_def)
  show ?thesis
    using insertCanonicalEvent_idempotent[OF h, of cfg1 1000 world0 2000] h n z
    unfolding Let_def by blast
qed


section \<open>Reply and edit references\<close>

lemma translate_replyTo:
  "translateMatrixEvent en ev rm = Inr em \<Longrightarrow>
   em_replyTo em = map_option (resolve_reply rm)
      (replyEventId (base_content ev) (effective_content (base_content ev)))"
  by (auto simp: translateMatrixEvent_def Let_def split: option.splits if_splits)

text \<open>
  C6 (as amended). When the event being mapped references an event \<open>x\<close> through its
  reply/edit relation and the mapping succeeds: if \<open>x\<close> is in the room's in-memory
  history, \<open>replyTo\<close> carries \<open>x\<close>'s sender, body and timestamp; if it is not (or
  the lookup throws), \<open>replyTo\<close> is the bare reference with the event id only. The
  mapper takes no store and consults none.
\<close>

theorem replyTo_from_room_history_only:
  assumes ok: "translateMatrixEvent en ev rm = Inr em"
      and ref: "replyEventId (base_content ev) (effective_content (base_content ev)) = Some x"
  shows "em_replyTo em = Some (resolve_reply rm x) \<and>
         (\<forall>t. findEventById rm x = Hit t \<longrightarrow>
            resolve_reply rm x =
              \<lparr>rt_eventId = x,
               rt_senderId = (if truthy (ev_sender t) then ev_sender t else None),
               rt_body =
                 (let targetBase = effective_content
                        (case ev_clear t of Some c \<Rightarrow> c | None \<Rightarrow> ev_content t)
                  in or_else (c_body targetBase) (c_formatted_body targetBase)),
               rt_timestamp = Some (ev_ts t)\<rparr>) \<and>
         (findEventById rm x = Miss \<or> findEventById rm x = Fault \<longrightarrow>
            resolve_reply rm x = bare_reference x)"
  using translate_replyTo[OF ok] ref
  by (auto simp: resolve_reply_def Let_def)

theorem replyTo_from_room_history_only_witness:
  "translateMatrixEvent env1 ev_reply room_hist = Inr em_reply_hist \<and>
   replyEventId (base_content ev_reply) (effective_content (base_content ev_reply)) = Some ''$X'' \<and>
   findEventById room_hist ''$X'' = Hit ev_orig \<and>
   em_replyTo em_reply_hist = Some (resolve_reply room_hist ''$X'') \<and>
   resolve_reply room_hist ''$X'' =
     \<lparr>rt_eventId = ''$X'', rt_senderId = Some ''@bob:hs'', rt_body = Some ''original'',
      rt_timestamp = Some 900\<rparr>"
proof -
  have h1: "translateMatrixEvent env1 ev_reply room_hist = Inr em_reply_hist" by code_simp
  have h2: "replyEventId (base_content ev_reply) (effective_content (base_content ev_reply)) = Some ''$X''"
    by code_simp
  have h3: "findEventById room_hist ''$X'' = Hit ev_orig" by (simp add: room_hist_def)
  have h4: "resolve_reply room_hist ''$X'' =
     \<lparr>rt_eventId = ''$X'', rt_senderId = Some ''@bob:hs'', rt_body = Some ''original'',
      rt_timestamp = Some 900\<rparr>" by code_simp
  show ?thesis
    using replyTo_from_room_history_only[OF h1 h2] h1 h2 h3 h4 by simp
qed

text \<open>
  The claim as stated fails: the store holds \<open>$X\<close> with its sender and body, the
  room's history does not, and the reply to \<open>$X\<close> is mapped and stored with the bare
  reference.
\<close>

theorem replyTo_store_fallback_counterexample:
  "map_option senderId (find (\<lambda>d. eventId d = Val ''$X'') (events world_x)) = Some ''@bob:hs'' \<and>
   findEventById room_empty ''$X'' = Miss \<and>
   map_option em_replyTo (case translateMatrixEvent env1 ev_reply room_empty of
        Inl e \<Rightarrow> None | Inr em \<Rightarrow> Some em) = Some (Some (bare_reference ''$X'')) \<and>
   map_option content (find (\<lambda>d. eventId d = Val ''$E2'')
       (events (handleIncomingMessage env1 ev_reply room_empty world_x))) =
     Some (MessageContent ''re'' ''m.text'' (Some (bare_reference ''$X'')) None)"
  by code_simp

section \<open>Malformed events\<close>

lemma translate_missing:
  "\<not> truthy (ev_sender ev) \<or> \<not> truthy (ev_id ev) \<Longrightarrow>
   translateMatrixEvent en ev rm = Inl (Error ''Invalid Matrix event: missing sender or event ID'')"
  by (auto simp: translateMatrixEvent_def truthy_def split: option.splits)

lemma reaction_missing_sender:
  assumes "\<not> truthy (ev_sender ev)"
  shows "handleIncomingReaction en ev rm w =
           printError (cfg en)
             (if \<not> db_connected en then ''Matrix Event Reaction Error: Database not connected''
              else if (case c_relates_to (ev_content ev) of
                         None \<Rightarrow> True | Some r \<Rightarrow> rel_type r \<noteq> Some ''m.annotation'')
              then ''Invalid reaction event structure''
              else ''Invalid reaction event: missing sender, target event ID, or emoji'') w"
proof (cases "ev_sender ev")
  case None
  then show ?thesis
    by (simp add: handleIncomingReaction_def handleIncomingReaction_body_def
        executeWithErrorLogging_def logError_def split: option.splits)
next
  case (Some sender)
  then have "sender = []" using assms by (simp add: truthy_def)
  then show ?thesis using Some
    by (simp add: handleIncomingReaction_def handleIncomingReaction_body_def
        executeWithErrorLogging_def logError_def split: option.splits)
qed

text \<open>
  C7 (as amended). A message or encrypted event whose sender or event id is missing: the
  mapping throws, both message handlers catch it, hand one line to \<open>cli.printError\<close>
  and return; no record is written and nothing is published, so the next event is
  handled against the same store. A reaction whose sender is missing is dropped in the
  same way by the reaction handler. The line is written when the configured log level is
  \<open>error\<close>, \<open>warn\<close>, \<open>info\<close> or \<open>debug\<close>, and not otherwise.
\<close>

theorem malformed_event_aborts_mapping_only:
  assumes bad: "\<not> truthy (ev_sender ev) \<or> \<not> truthy (ev_id ev)"
  shows "handleMessageCreation_body en ev rm w =
           Threw (Error ''Invalid Matrix event: missing sender or event ID'') w \<and>
         handleMessageCreation en ev rm w =
           printError (cfg en)
             ''Matrix Event Message Creation Error: Invalid Matrix event: missing sender or event ID'' w \<and>
         handleIncomingMessage_body en ev rm w =
           Threw (Error (if db_connected en
                         then ''Invalid Matrix event: missing sender or event ID''
                         else ''Database not connected'')) w \<and>
         handleIncomingMessage en ev rm w =
           printError (cfg en)
             (''Matrix Event Incoming Message Error: '' @
              (if db_connected en then ''Invalid Matrix event: missing sender or event ID''
               else ''Database not connected'')) w \<and>
         events (handleIncomingMessage en ev rm w) = events w \<and>
         events (handleMessageCreation en ev rm w) = events w \<and>
         bus (handleIncomingMessage en ev rm w) = bus w \<and>
         bus (handleMessageCreation en ev rm w) = bus w \<and>
         errors (handleMessageCreation en ev rm w) =
           errors w @
           (if isEnabled (cfg en) ''error''
            then [''Matrix Event Message Creation Error: Invalid Matrix event: missing sender or event ID'']
            else []) \<and>
         errors (handleIncomingMessage en ev rm w) =
           errors w @
           (if isEnabled (cfg en) ''error''
            then [''Matrix Event Incoming Message Error: '' @
                  (if db_connected en then ''Invalid Matrix event: missing sender or event ID''
                   else ''Database not connected'')]
            else []) \<and>
         (isEnabled (cfg en) ''error'' \<longleftrightarrow>
            or_lit (Some (logLevel (cfg en))) ''info'' \<in> {''error'', ''warn'', ''info'', ''debug''}) \<and>
         (\<not> truthy (ev_sender ev) \<longrightarrow>
            events (handleIncomingReaction en ev rm w) = events w \<and>
            bus (handleIncomingReaction en ev rm w) = bus w \<and>
            errors (handleIncomingReaction en ev rm w) =
              errors w @
              (if isEnabled (cfg en) ''error''
               then [if \<not> db_connected en
                     then ''Matrix Event Reaction Error: Database not connected''
                     else if (case c_relates_to (ev_content ev) of
                                None \<Rightarrow> True | Some r \<Rightarrow> rel_type r \<noteq> Some ''m.annotation'')
                     then ''Invalid reaction event structure''
                     else ''Invalid reaction event: missing sender, target event ID, or emoji'']
               else []))"
proof -
  have c: "handleMessageCreation_body en ev rm w =
           Threw (Error ''Invalid Matrix event: missing sender or event ID'') w"
    using translate_missing[OF bad, of en rm] by (simp add: handleMessageCreation_body_def)
  have i: "handleIncomingMessage_body en ev rm w =
           Threw (Error (if db_connected en
                         then ''Invalid Matrix event: missing sender or event ID''
                         else ''Database not connected'')) w"
    using translate_missing[OF bad, of en rm] by (simp add: handleIncomingMessage_body_def)
  have c': "handleMessageCreation en ev rm w =
           printError (cfg en)
             ''Matrix Event Message Creation Error: Invalid Matrix event: missing sender or event ID'' w"
    by (simp add: handleMessageCreation_def c executeWithErrorLogging_def logError_def)
  have i': "handleIncomingMessage en ev rm w =
           printError (cfg en)
             (''Matrix Event Incoming Message Error: '' @
              (if db_connected en then ''Invalid Matrix event: missing sender or event ID''
               else ''Database not connected'')) w"
    by (simp add: handleIncomingMessage_def i executeWithErrorLogging_def logError_def)
  have r: "events (handleIncomingReaction en ev rm w) = events w \<and>
            bus (handleIncomingReaction en ev rm w) = bus w \<and>
            errors (handleIncomingReaction en ev rm w) =
              errors w @
              (if isEnabled (cfg en) ''error''
               then [if \<not> db_connected en
                     then ''Matrix Event Reaction Error: Database not connected''
                     else if (case c_relates_to (ev_content ev) of
                                None \<Rightarrow> True | Some r \<Rightarrow> rel_type r \<noteq> Some ''m.annotation'')
                     then ''Invalid reaction event structure''
                     else ''Invalid reaction event: missing sender, target event ID, or emoji'']
               else [])"
    if "\<not> truthy (ev_sender ev)"
    unfolding reaction_missing_sender[OF that] by (simp add: errors_printError)
  show ?thesis
    unfolding c' i' using c i r isEnabled_error[of "cfg en"]
    by (simp add: errors_printError)
qed

theorem malformed_event_aborts_mapping_only_witness:
  "\<not> truthy (ev_sender ev_no_sender) \<and> isEnabled (cfg env1) ''error'' \<and>
   handleIncomingMessage env1 ev_no_sender room_empty world_x =
     world_x\<lparr>errors := errors world_x @
       [''Matrix Event Incoming Message Error: Invalid Matrix event: missing sender or event ID'']\<rparr> \<and>
   events (handleIncomingMessage env1 ev_no_sender room_empty world_x) = events world_x \<and>
   events (handleIncomingMessage env1 ev_reply room_empty
             (handleIncomingMessage env1 ev_no_sender room_empty world_x)) =
     events (handleIncomingMessage env1 ev_reply room_empty world_x) \<and>
   \<not> truthy (ev_sender ev_react_no_sender) \<and>
   events (handleIncomingReaction env1 ev_react_no_sender room_hist world_x) = events world_x \<and>
   bus (handleIncomingReaction env1 ev_react_no_sender room_hist world_x) = bus world_x \<and>
   errors (handleIncomingReaction env1 ev_react_no_sender room_hist world_x) =
     errors world_x @ [''Invalid reaction event: missing sender, target event ID, or emoji'']"
proof -
  have h: "\<not> truthy (ev_sender ev_no_sender)"
    by (simp add: ev_no_sender_def truthy_def)
  then have h': "\<not> truthy (ev_sender ev_no_sender) \<or> \<not> truthy (ev_id ev_no_sender)" by simp
  have g: "\<not> truthy (ev_sender ev_react_no_sender)"
    by (simp add: ev_react_no_sender_def truthy_def)
  then have g': "\<not> truthy (ev_sender ev_react_no_sender) \<or> \<not> truthy (ev_id ev_react_no_sender)"
    by simp
  have db: "db_connected env1" by (simp add: env1_def)
  have en: "isEnabled (cfg env1) ''error''" by code_simp
  have rel: "c_relates_to (ev_content ev_react_no_sender) = Some annotation_X"
    by (simp add: ev_react_no_sender_def ev_react_def)
  have ann: "rel_type annotation_X = Some ''m.annotation''" by (simp add: annotation_X_def)
  have cont: "events (handleIncomingMessage env1 ev_reply room_empty
             (world_x\<lparr>errors := errors world_x @
       [''Matrix Event Incoming Message Error: Invalid Matrix event: missing sender or event ID'']\<rparr>)) =
     events (handleIncomingMessage env1 ev_reply room_empty world_x)"
    by code_simp
  show ?thesis
    using malformed_event_aborts_mapping_only[OF h', of env1 room_empty world_x]
      malformed_event_aborts_mapping_only[OF g', of env1 room_hist world_x]
      h g db en rel ann cont
    by (simp add: printError_def)
qed

text \<open>
  The claim as stated fails for a reaction whose own event id is missing: the reaction
  handler never reads the id, so the reaction is stored, with a null event id, and
  published, and no error line is written. It also fails in its second part at the log
  level \<open>silent\<close>: the event without a sender is dropped and nothing is written.
\<close>

theorem reaction_without_event_id_stored_counterexample:
  "\<not> truthy (ev_id ev_react_no_id) \<and> isEnabled (cfg env1) ''error'' \<and>
   length (events (handleIncomingReaction env1 ev_react_no_id room_hist world_x)) =
     length (events world_x) + 1 \<and>
   eventId (last (events (handleIncomingReaction env1 ev_react_no_id room_hist world_x))) = Null \<and>
   etype (last (events (handleIncomingReaction env1 ev_react_no_id room_hist world_x))) = ''reaction'' \<and>
   length (bus (handleIncomingReaction env1 ev_react_no_id room_hist world_x)) =
     length (bus world_x) + 1 \<and>
   a_type (last (bus (handleIncomingReaction env1 ev_react_no_id room_hist world_x))) = ''reaction'' \<and>
   errors (handleIncomingReaction env1 ev_react_no_id room_hist world_x) = errors world_x \<and>
   \<not> truthy (ev_sender ev_no_sender) \<and> logLevel (cfg env_silent) = ''silent'' \<and>
   handleIncomingMessage env_silent ev_no_sender room_empty world_x = world_x"
  by code_simp

section \<open>Publishing gates\<close>



lemma bus_insert [simp]: "bus (insertCanonicalEvent cf up t e w) = bus w"
  by (simp add: insertCanonicalEvent_def printError_def Let_def split: sum.splits error.splits)

lemma bus_publish [simp]: "bus (state_of (publishEvent en a w)) = bus w @ [a]"
  by (simp add: publishEvent_def Let_def)

lemma bus_execute [simp]: "bus (executeWithErrorLogging cf c r) = bus (state_of r)"
  by (cases r) (auto simp: executeWithErrorLogging_def logError_def printError_def split: error.splits)










section \<open>The synthetic received receipt\<close>

lemma localUserId_sessionId: "localUserId c = sessionId c"
  by (auto simp: localUserId_def sessionId_def trim_def)

lemma events_addMatrixContact [simp]: "events (addMatrixContact en u w) = events w"
  by (simp add: addMatrixContact_def upsertContact_def translateMatrixUser_def
      split: profile.splits prod.splits)

lemma bus_addMatrixContact [simp]: "bus (addMatrixContact en u w) = bus w"
  by (simp add: addMatrixContact_def upsertContact_def translateMatrixUser_def
      split: profile.splits prod.splits)

lemma events_publish [simp]: "events (state_of (publishEvent en a w)) = events w"
  by (simp add: publishEvent_def Let_def)

lemma update_first_keeps:
  "update_first p g xs = Some ys \<Longrightarrow> x \<in> set xs \<Longrightarrow> \<not> p x \<Longrightarrow> x \<in> set ys"
  by (induction xs arbitrary: ys) (auto split: if_splits)

lemma update_first_member:
  "update_first p g xs = Some ys \<Longrightarrow> \<exists>d0 \<in> set xs. p d0 \<and> g d0 \<in> set ys"
  by (induction xs arbitrary: ys) (auto split: if_splits)

lemma insert_keeps:
  "d \<in> set (events w) \<Longrightarrow> \<not> matches (build_filter e) d \<Longrightarrow>
   d \<in> set (events (insertCanonicalEvent cf up t e w))"
  by (auto simp: insertCanonicalEvent_def printError_def updateOne_def Let_def update_first_keeps
      split: option.splits error.splits)

lemma insert_written:
  "\<exists>d0. apply_set \<lparr>u_setOnInsert = t, u_set = e, u_updatedAt = t\<rparr> d0
           \<in> set (events (insertCanonicalEvent cf True t e w)) \<and>
        (d0 \<in> set (events w) \<and> matches (build_filter e) d0 \<or>
         d0 = base_doc (build_filter e) \<lparr>u_setOnInsert = t, u_set = e, u_updatedAt = t\<rparr>)"
proof (cases "update_first (matches (build_filter e))
             (apply_set \<lparr>u_setOnInsert = t, u_set = e, u_updatedAt = t\<rparr>) (events w)")
  case None
  then show ?thesis by (auto simp: events_insert_ok)
next
  case (Some c)
  from update_first_member[OF Some] show ?thesis
    using Some by (auto simp: events_insert_ok)
qed

lemma translate_ids:
  "translateMatrixEvent en ev rm = Inr em \<Longrightarrow>
   ev_id ev = Some (em_serialized em) \<and> em_serialId em = em_serialized em \<and>
   em_serialized em \<noteq> [] \<and> em_roomId em = r_roomId rm \<and> em_timestamp em = ev_ts ev \<and>
   ev_sender ev = Some (em_from em)"
  by (auto simp: translateMatrixEvent_def Let_def split: option.splits if_splits)

lemma received_receipt_written:
  assumes inv: "receipts_unkeyed (events w)"
  shows "\<exists>d \<in> set (events (insertCanonicalEvent cf True t
              (toCanonicalEventFromReceipt c x rid reader ts ''received'') w)).
           etype d = ''receipt'' \<and> content d = ReceiptContent ''received'' x \<and>
           senderId d = reader \<and> roomId d = rid \<and>
           relatesTo d = Some \<lparr>rel_eventId = Some x, relationType = None\<rparr> \<and>
           source d = ''messenger'' \<and> arcUserId d = sessionId c \<and> timestamp d = ts \<and>
           eventId d = Absent"
proof -
  let ?e = "toCanonicalEventFromReceipt c x rid reader ts ''received''"
  let ?u = "\<lparr>u_setOnInsert = t, u_set = ?e, u_updatedAt = t\<rparr>"
  obtain d0 where mem: "apply_set ?u d0 \<in> set (events (insertCanonicalEvent cf True t ?e w))"
    and d0: "d0 \<in> set (events w) \<and> matches (build_filter ?e) d0 \<or> d0 = base_doc (build_filter ?e) ?u"
    using insert_written[of t ?e cf w] by blast
  have flt: "f_type (build_filter ?e) = Some ''receipt''" "f_eventId (build_filter ?e) = None"
    by (simp_all add: build_filter_def toCanonicalEventFromReceipt_def has_string_id_def)
  have "eventId d0 = Absent"
  proof (rule disjE[OF d0])
    assume a: "d0 \<in> set (events w) \<and> matches (build_filter ?e) d0"
    then have "etype d0 = ''receipt''" using flt by (simp add: matches_def on_field_def)
    then show ?thesis using a inv by (auto simp: receipts_unkeyed_def)
  next
    assume "d0 = base_doc (build_filter ?e) ?u"
    then show ?thesis using flt by (simp add: base_doc_def)
  qed
  then have "etype (apply_set ?u d0) = ''receipt'' \<and>
       content (apply_set ?u d0) = ReceiptContent ''received'' x \<and>
       senderId (apply_set ?u d0) = reader \<and> roomId (apply_set ?u d0) = rid \<and>
       relatesTo (apply_set ?u d0) = Some \<lparr>rel_eventId = Some x, relationType = None\<rparr> \<and>
       source (apply_set ?u d0) = ''messenger'' \<and> arcUserId (apply_set ?u d0) = sessionId c \<and>
       timestamp (apply_set ?u d0) = ts \<and> eventId (apply_set ?u d0) = Absent"
    by (simp add: apply_set_def toCanonicalEventFromReceipt_def Let_def)
  then show ?thesis using mem by blast
qed

lemma message_filter_misses_unkeyed:
  "em_serialId em \<noteq> [] \<Longrightarrow> eventId d = Absent \<Longrightarrow>
   \<not> matches (build_filter (toCanonicalEventFromMessage c em enc)) d"
  by (simp add: matches_def build_filter_def toCanonicalEventFromMessage_def has_string_id_def)

text \<open>
  C9. When an incoming message is mapped successfully (and the database is connected and
  accepts writes), the handler leaves in the events collection a receipt record with
  \<open>content.ack = "received"\<close>, \<open>senderId\<close> the local account id (which is also the
  record's \<open>arcUserId\<close>), \<open>roomId\<close> the message's room and \<open>relatesTo.eventId\<close>
  the message's event id. The handler issues one publish call, for the message event;
  the receipt is not published, whatever \<open>publishReceipts\<close> says.
\<close>

theorem received_receipt_stored_not_published:
  assumes ok: "translateMatrixEvent en ev rm = Inr em"
      and db: "db_connected en" and up: "store_up en"
      and inv: "receipts_unkeyed (events w)"
  shows "(\<exists>d \<in> set (events (handleIncomingMessage en ev rm w)).
            etype d = ''receipt'' \<and> content d = ReceiptContent ''received'' (em_serialized em) \<and>
            senderId d = sessionId (cfg en) \<and> senderId d = arcUserId d \<and>
            roomId d = r_roomId rm \<and>
            relatesTo d = Some \<lparr>rel_eventId = Some (em_serialized em), relationType = None\<rparr> \<and>
            eventId d = Absent) \<and>
         ev_id ev = Some (em_serialized em) \<and> em_roomId em = r_roomId rm \<and>
         bus (handleIncomingMessage en ev rm w) =
           bus w @ [buildMessageEvent (cfg en) (now en) em
                      (ev_type ev = ''m.room.encrypted'' \<or> ev_decryption_failure ev \<or>
                       em_body em = ''[No content]'')] \<and>
         (\<forall>a \<in> set (bus (handleIncomingMessage en ev rm w)) - set (bus w). a_type a = ''message'')"
proof -
  define enc where "enc = (ev_type ev = ''m.room.encrypted'' \<or> ev_decryption_failure ev \<or>
                       em_body em = ''[No content]'')"
  define w1 where "w1 = addMatrixContact en (em_from em) w"
  define recv where "recv = toCanonicalEventFromReceipt (cfg en) (em_serialized em)
                        (r_roomId rm) (localUserId (cfg en)) (em_timestamp em) ''received''"
  define w2 where "w2 = insertCanonicalEvent (cfg en) True (now en) recv w1"
  define cme where "cme = toCanonicalEventFromMessage (cfg en) em enc"
  define w3 where "w3 = insertCanonicalEvent (cfg en) True (now en) cme w2"
  define arcEvent where "arcEvent = buildMessageEvent (cfg en) (now en) em enc"
  note ids = translate_ids[OF ok]
  have body: "state_of (handleIncomingMessage_body en ev rm w) =
      (let w4 = state_of (publishEvent en arcEvent w3) in
       if broker_up en \<and> em_body em = ''[No content]''
       then w4\<lparr>decrypt_listeners := decrypt_listeners w4 @ [(em_serialized em, False)]\<rparr> else w4)"
    using ok db up
    by (simp add: handleIncomingMessage_body_def Let_def w1_def recv_def w2_def cme_def w3_def
        arcEvent_def enc_def publishEvent_def)
  have ev_h: "events (handleIncomingMessage en ev rm w) = events w3"
    by (cases "handleIncomingMessage_body en ev rm w")
      (use body in \<open>auto simp: handleIncomingMessage_def executeWithErrorLogging_def logError_def printError_def
         Let_def split: error.splits if_splits\<close>)
  have bus_h: "bus (handleIncomingMessage en ev rm w) = bus w @ [arcEvent]"
    using body by (simp add: handleIncomingMessage_def Let_def w3_def w2_def w1_def split: if_splits)
  have inv1: "receipts_unkeyed (events w1)" using inv by (simp add: w1_def)
  obtain d where d: "d \<in> set (events w2)"
    and dp: "etype d = ''receipt''" "content d = ReceiptContent ''received'' (em_serialized em)"
      "senderId d = localUserId (cfg en)" "roomId d = r_roomId rm"
      "relatesTo d = Some \<lparr>rel_eventId = Some (em_serialized em), relationType = None\<rparr>"
      "arcUserId d = sessionId (cfg en)" "eventId d = Absent"
    using received_receipt_written[OF inv1, of "cfg en" "now en" "cfg en" "em_serialized em" "r_roomId rm"
        "localUserId (cfg en)" "em_timestamp em"]
    unfolding w2_def recv_def by blast
  have "\<not> matches (build_filter cme) d"
    unfolding cme_def using ids dp(7) by (intro message_filter_misses_unkeyed) simp_all
  then have "d \<in> set (events w3)"
    unfolding w3_def using d by (rule insert_keeps[rotated])
  then have part1: "\<exists>d \<in> set (events (handleIncomingMessage en ev rm w)).
            etype d = ''receipt'' \<and> content d = ReceiptContent ''received'' (em_serialized em) \<and>
            senderId d = sessionId (cfg en) \<and> senderId d = arcUserId d \<and>
            roomId d = r_roomId rm \<and>
            relatesTo d = Some \<lparr>rel_eventId = Some (em_serialized em), relationType = None\<rparr> \<and>
            eventId d = Absent"
    using dp ev_h localUserId_sessionId[of "cfg en"] by auto
  have ty: "a_type arcEvent = ''message''"
    by (simp add: arcEvent_def buildMessageEvent_def Let_def)
  show ?thesis
    using part1 ids bus_h ty unfolding arcEvent_def enc_def by auto
qed

theorem received_receipt_stored_not_published_witness:
  "translateMatrixEvent env_pub ev_reply room_hist = Inr em_reply_hist \<and>
   db_connected env_pub \<and> store_up env_pub \<and> publishReceipts (cfg env_pub) \<and>
   receipts_unkeyed (events world_x) \<and>
   (\<exists>d. d \<in> set (events (handleIncomingMessage env_pub ev_reply room_hist world_x)) \<and>
        etype d = ''receipt'' \<and> content d = ReceiptContent ''received'' ''$E2'' \<and>
        senderId d = ''@me:hs'' \<and> roomId d = ''!R'' \<and>
        relatesTo d = Some \<lparr>rel_eventId = Some ''$E2'', relationType = None\<rparr>) \<and>
   map a_type (bus (handleIncomingMessage env_pub ev_reply room_hist world_x)) =
     map a_type (bus world_x) @ [''message'']"
proof -
  have h1: "translateMatrixEvent env_pub ev_reply room_hist = Inr em_reply_hist" by code_simp
  have h2: "db_connected env_pub" "store_up env_pub" "publishReceipts (cfg env_pub)"
    by (simp_all add: env_pub_def env1_def)
  have h3: "receipts_unkeyed (events world_x)" by code_simp
  have s: "sessionId (cfg env_pub) = ''@me:hs''" by code_simp
  have r: "r_roomId room_hist = ''!R''" by (simp add: room_hist_def room_empty_def)
  have i: "em_serialized em_reply_hist = ''$E2''" by (simp add: em_reply_hist_def)
  note t = received_receipt_stored_not_published[OF h1 h2(1) h2(2) h3]
  have p1: "\<exists>d. d \<in> set (events (handleIncomingMessage env_pub ev_reply room_hist world_x)) \<and>
        etype d = ''receipt'' \<and> content d = ReceiptContent ''received'' ''$E2'' \<and>
        senderId d = ''@me:hs'' \<and> roomId d = ''!R'' \<and>
        relatesTo d = Some \<lparr>rel_eventId = Some ''$E2'', relationType = None\<rparr>"
    using t s r i by auto
  have p2: "map a_type (bus (handleIncomingMessage env_pub ev_reply room_hist world_x)) =
     map a_type (bus world_x) @ [''message'']"
    using t by (simp add: buildMessageEvent_def Let_def)
  show ?thesis using h1 h2 h3 p1 p2 by simp
qed

section \<open>Stored receipts carry no event id\<close>

text \<open>
  The hypothesis of the theorem above holds of the empty collection and is kept by the
  store writer on every event the mappers build, hence by every handler.
\<close>

lemma update_first_set:
  "update_first p g xs = Some ys \<Longrightarrow> y \<in> set ys \<Longrightarrow>
   y \<in> set xs \<or> (\<exists>x \<in> set xs. p x \<and> y = g x)"
  by (induction xs arbitrary: ys) (auto split: if_splits)

lemma events_execute [simp]: "events (executeWithErrorLogging cf c r) = events (state_of r)"
  by (cases r) (auto simp: executeWithErrorLogging_def logError_def printError_def split: error.splits)

lemma unkeyed_insert:
  assumes inv: "receipts_unkeyed (events w)"
      and e: "etype e = ''receipt'' \<longrightarrow> eventId e = Absent"
  shows "receipts_unkeyed (events (insertCanonicalEvent cf up t e w))"
proof (cases up)
  case False
  then show ?thesis using inv
    by (simp add: insertCanonicalEvent_def printError_def updateOne_def Let_def)
next
  case True
  let ?u = "\<lparr>u_setOnInsert = t, u_set = e, u_updatedAt = t\<rparr>"
  let ?f = "build_filter e"
  have base: "etype e = ''receipt'' \<longrightarrow> eventId (base_doc ?f ?u) = Absent"
    using e by (auto simp: base_doc_def build_filter_def has_string_id_def)
  have matched: "matches ?f d \<Longrightarrow> etype e = ''receipt'' \<Longrightarrow> etype d = ''receipt''" for d
    using e by (auto simp: matches_def build_filter_def has_string_id_def on_field_def)
  show ?thesis
  proof (cases "update_first (matches ?f) (apply_set ?u) (events w)")
    case None
    have "etype (apply_set ?u (base_doc ?f ?u)) = ''receipt'' \<longrightarrow>
          eventId (apply_set ?u (base_doc ?f ?u)) = Absent"
      using e base by (auto simp: apply_set_def Let_def)
    then show ?thesis using None True inv
      by (auto simp: events_insert_ok receipts_unkeyed_def)
  next
    case (Some c)
    have "etype y = ''receipt'' \<longrightarrow> eventId y = Absent" if y: "y \<in> set c" for y
    proof -
      from update_first_set[OF Some y] show ?thesis
      proof
        assume "y \<in> set (events w)"
        then show ?thesis using inv by (simp add: receipts_unkeyed_def)
      next
        assume "\<exists>x \<in> set (events w). matches ?f x \<and> y = apply_set ?u x"
        then obtain x where x: "x \<in> set (events w)" "matches ?f x" "y = apply_set ?u x" by blast
        show ?thesis
        proof
          assume r: "etype y = ''receipt''"
          then have "etype e = ''receipt''" using x(3) by (simp add: apply_set_def Let_def)
          then have "etype x = ''receipt''" using matched[OF x(2)] by simp
          then have "eventId x = Absent" using inv x(1) by (simp add: receipts_unkeyed_def)
          then show "eventId y = Absent"
            using x(3) e \<open>etype e = ''receipt''\<close> by (simp add: apply_set_def Let_def)
        qed
      qed
    qed
    then show ?thesis using Some True by (simp add: events_insert_ok receipts_unkeyed_def)
  qed
qed

lemma unkeyed_message:
  "receipts_unkeyed (events w) \<Longrightarrow>
   receipts_unkeyed (events (insertCanonicalEvent cf up t (toCanonicalEventFromMessage c em enc) w))"
  by (rule unkeyed_insert) (simp_all add: toCanonicalEventFromMessage_def)

lemma unkeyed_reaction:
  "receipts_unkeyed (events w) \<Longrightarrow>
   receipts_unkeyed (events (insertCanonicalEvent cf up t (toCanonicalEventFromReaction c er rid sid ts) w))"
  by (rule unkeyed_insert) (simp_all add: toCanonicalEventFromReaction_def)

lemma unkeyed_receipt:
  "receipts_unkeyed (events w) \<Longrightarrow>
   receipts_unkeyed (events (insertCanonicalEvent cf up t (toCanonicalEventFromReceipt c x rid reader ts ack) w))"
  by (rule unkeyed_insert) (simp_all add: toCanonicalEventFromReceipt_def)

lemma unkeyed_handleIncomingMessage:
  assumes "receipts_unkeyed (events w)"
  shows "receipts_unkeyed (events (handleIncomingMessage en ev rm w))"
proof (cases "db_connected en")
  case False
  then show ?thesis using assms
    by (simp add: handleIncomingMessage_def handleIncomingMessage_body_def)
next
  case True
  show ?thesis
  proof (cases "translateMatrixEvent en ev rm")
    case (Inl e)
    then show ?thesis using assms True
      by (simp add: handleIncomingMessage_def handleIncomingMessage_body_def)
  next
    case (Inr em)
    have "receipts_unkeyed (events (addMatrixContact en (em_from em) w))" using assms by simp
    then have "receipts_unkeyed (events (insertCanonicalEvent (cfg en) (store_up en) (now en)
        (toCanonicalEventFromMessage (cfg en) em enc)
        (insertCanonicalEvent (cfg en) (store_up en) (now en)
           (toCanonicalEventFromReceipt (cfg en) (em_serialized em) (r_roomId rm)
              (localUserId (cfg en)) (em_timestamp em) ''received'')
           (addMatrixContact en (em_from em) w))))" for enc
      by (intro unkeyed_message unkeyed_receipt)
    then show ?thesis using Inr True
      by (simp add: handleIncomingMessage_def handleIncomingMessage_body_def Let_def publishEvent_def)
  qed
qed

lemma unkeyed_handleMessageCreation:
  assumes "receipts_unkeyed (events w)"
  shows "receipts_unkeyed (events (handleMessageCreation en ev rm w))"
proof (cases "translateMatrixEvent en ev rm")
  case (Inl e)
  then show ?thesis using assms
    by (simp add: handleMessageCreation_def handleMessageCreation_body_def)
next
  case (Inr em)
  have "receipts_unkeyed (events (addMatrixContact en (em_from em) (addMatrixContact en (em_to em) w)))"
    using assms by simp
  then have "receipts_unkeyed (events (insertCanonicalEvent (cfg en) (store_up en) (now en)
        (toCanonicalEventFromMessage (cfg en) em False)
        (addMatrixContact en (em_from em) (addMatrixContact en (em_to em) w))))"
    by (rule unkeyed_message)
  then show ?thesis using Inr assms
    by (simp add: handleMessageCreation_def handleMessageCreation_body_def Let_def publishEvent_def)
qed

lemma unkeyed_store_reaction:
  "receipts_unkeyed (events w) \<Longrightarrow>
   receipts_unkeyed (events (state_of (store_reaction en rm ev sender er emo w)))"
  using unkeyed_reaction[of w "cfg en" "store_up en" "now en" "cfg en" er "r_roomId rm" sender "ev_ts ev"]
  by (simp add: store_reaction_def Let_def publishEvent_def split: option.splits)

lemma unkeyed_handleIncomingReaction:
  assumes "receipts_unkeyed (events w)"
  shows "receipts_unkeyed (events (handleIncomingReaction en ev rm w))"
  using assms unkeyed_store_reaction[OF assms]
  by (simp add: handleIncomingReaction_def handleIncomingReaction_body_def Let_def
      split: option.splits sum.splits)

lemma unkeyed_receipt_readers:
  "receipts_unkeyed (events w) \<Longrightarrow>
   receipts_unkeyed (events (state_of (receipt_readers en rm x em rs w)))"
proof (induction rs arbitrary: w)
  case Nil
  then show ?case by simp
next
  case (Cons a rs)
  obtain reader tso where a: "a = (reader, tso)" by (cases a)
  define ts where "ts = (case tso of None \<Rightarrow> em_timestamp em | Some t \<Rightarrow> num_or t (em_timestamp em))"
  define w1 where "w1 = insertCanonicalEvent (cfg en) (store_up en) (now en)
      (toCanonicalEventFromReceipt (cfg en) x (r_roomId rm) reader ts ''read'') w"
  have i1: "receipts_unkeyed (events w1)" unfolding w1_def using Cons.prems by (rule unkeyed_receipt)
  show ?case
  proof (cases "publishReceipts (cfg en)")
    case False
    then show ?thesis using a Cons.IH[OF i1] by (simp add: Let_def w1_def ts_def)
  next
    case True
    define w2 where "w2 = w1\<lparr>bus := bus w1 @ [buildReceiptEvent (cfg en) (now en) x em ''ACK_READ'' ts]\<rparr>"
    have i2: "receipts_unkeyed (events w2)" using i1 by (simp add: w2_def)
    show ?thesis
    proof (cases "broker_up en")
      case up: True
      then show ?thesis using a True Cons.IH[OF i2]
        by (simp add: Let_def w1_def w2_def ts_def publishEvent_def)
    next
      case down: False
      then show ?thesis using a True i2
        by (simp add: Let_def w1_def w2_def ts_def publishEvent_def)
    qed
  qed
qed

lemma unkeyed_receipt_targets:
  "receipts_unkeyed (events w) \<Longrightarrow>
   receipts_unkeyed (events (state_of (receipt_targets en rm ts w)))"
proof (induction ts arbitrary: w)
  case Nil
  then show ?case by simp
next
  case (Cons a ts)
  obtain x rs where a: "a = (x, rs)" by (cases a)
  show ?case
  proof (cases "findEventById rm x")
    case (Hit t)
    show ?thesis
    proof (cases "translateMatrixEvent en t rm")
      case (Inl e)
      then show ?thesis using Hit a Cons.prems by simp
    next
      case (Inr em)
      have i: "receipts_unkeyed (events (state_of (receipt_readers en rm x em rs w)))"
        using Cons.prems by (rule unkeyed_receipt_readers)
      show ?thesis
      proof (cases "receipt_readers en rm x em rs w")
        case (Returned w1)
        then show ?thesis using Hit a Inr i Cons.IH[of w1] by simp
      next
        case (Threw e w1)
        then show ?thesis using Hit a Inr i by simp
      qed
    qed
  next
    case Miss
    then show ?thesis using a Cons by simp
  next
    case Fault
    then show ?thesis using a Cons.prems by simp
  qed
qed

lemma unkeyed_handleIncomingReceipt:
  "receipts_unkeyed (events w) \<Longrightarrow> receipts_unkeyed (events (handleIncomingReceipt en ev rm w))"
  by (simp add: handleIncomingReceipt_def handleIncomingReceipt_body_def unkeyed_receipt_targets)

section \<open>Bind once, drive once\<close>

lemma enters_refl: "enters a a 0"
  by (simp add: enters_def)

lemma enters_trans: "enters a b m \<Longrightarrow> enters b c n \<Longrightarrow> enters a c (m + n)"
  by (cases a; cases b; cases c) (simp_all add: enters_def)

lemma binds_append: "binds t (xs @ ys) = binds t xs + binds t ys"
  by (simp add: binds_def)

lemma drives_append: "drives t (xs @ ys) = drives t xs + drives t ys"
  by (simp add: drives_def)

lemma once_refl: "once t s (s, [])"
  by (simp add: once_def binds_def drives_def enters_refl)

lemma once_same_guards:
  assumes "boundTxns s' = boundTxns s" and "begunHandshakeTxns s' = begunHandshakeTxns s"
    and "binds t xs = 0" and "drives t xs = 0"
  shows "once t s (s', xs)"
  unfolding once_def fst_conv snd_conv assms by (simp add: enters_refl)

lemma once_trans:
  assumes "once t s (s1, x1)" and "once t s1 (s2, x2)"
  shows "once t s (s2, x1 @ x2)"
  using assms enters_trans unfolding once_def binds_append drives_append fst_conv snd_conv
  by blast

lemma once_bind: "once t s (bindVerifierEventHandlers v txnId s)"
proof (cases "txnId = [] \<or> txnId \<in> boundTxns s")
  case True
  then have "bindVerifierEventHandlers v txnId s = (s, [])"
    by (auto simp: bindVerifierEventHandlers_def)
  then show ?thesis by (simp add: once_refl)
next
  case False
  show ?thesis
  proof (cases "t = txnId")
    case True
    then show ?thesis using False
      by (simp add: bindVerifierEventHandlers_def Let_def once_def enters_def binds_def drives_def)
  next
    case ne: False
    then show ?thesis using False
      by (simp add: bindVerifierEventHandlers_def Let_def once_def enters_def binds_def drives_def)
  qed
qed

lemma once_on_change: "once t s (on_change req s)"
  by (simp add: on_change_def once_refl once_bind split: option.splits)

lemma once_on_verification_start: "once t s (on_verification_start v req s)"
  by (simp add: on_verification_start_def once_refl once_bind split: option.splits)

lemma once_on_to_device: "once t s (on_to_device ty txn s)"
  by (simp add: on_to_device_def once_refl once_bind split: option.splits)

lemma fst_run_all_Cons: "fst (run_all (f # fs) s) = fst (run_all fs (fst (f s)))"
  by (simp split: prod.splits)

lemma snd_run_all_Cons: "snd (run_all (f # fs) s) = snd (f s) @ snd (run_all fs (fst (f s)))"
  by (simp split: prod.splits)

lemma fst_run_Cons: "fst (run s (e # es)) = fst (run (fst (step s e)) es)"
  by (simp split: prod.splits)

lemma snd_run_Cons: "snd (run s (e # es)) = snd (step s e) @ snd (run (fst (step s e)) es)"
  by (simp split: prod.splits)

lemma once_on_verification_request: "once t s (on_verification_request req s)"
  by (cases "activeVerifier s")
     (simp_all add: on_verification_request_def Let_def once_def enters_def binds_def drives_def
        split: option.splits)

lemma once_on_accept_settled: "once t s (on_accept_settled r s)"
  by (cases "find (\<lambda>req. req_ref req = r) (accepting s)")
     (simp_all add: on_accept_settled_def once_def enters_def binds_def drives_def)

lemma once_on_show_sas: "once t s (on_show_sas v t' ev s)"
  by (cases "sas_confirm ev")
     (simp_all add: on_show_sas_def Let_def once_def enters_def binds_def drives_def)

lemma confirm_call_quiet:
  "binds t (snd (confirm_call av s)) = 0 \<and> drives t (snd (confirm_call av s)) = 0"
  by (simp add: confirm_call_def binds_def drives_def split: option.splits promise.splits)

lemma on_line_quiet:
  "boundTxns (fst (on_line l s)) = boundTxns s \<and>
   begunHandshakeTxns (fst (on_line l s)) = begunHandshakeTxns s \<and>
   binds t (snd (on_line l s)) = 0 \<and> drives t (snd (on_line l s)) = 0"
proof (cases "activeVerifier s")
  case None
  then show ?thesis by (simp add: on_line_def Let_def binds_def drives_def)
next
  case (Some av)
  obtain ok xs where c: "confirm_call av s = (ok, xs)" by (cases "confirm_call av s")
  have q: "binds t xs = 0" "drives t xs = 0" using confirm_call_quiet[of t av s] c by simp_all
  then have q': "filter (is_bind t) xs = []" "filter (is_drive t) xs = []"
    by (simp_all add: binds_def drives_def)
  show ?thesis using Some c q'
    by (cases ok) (simp_all add: on_line_def Let_def binds_def drives_def)
qed

lemma once_on_line: "once t s (on_line l s)"
  using on_line_quiet[of l s t] by (simp add: once_def enters_def)

lemma once_run_all:
  "(\<And>f s. f \<in> set fs \<Longrightarrow> once t s (f s)) \<Longrightarrow> once t s (run_all fs s)"
proof (induction fs arbitrary: s)
  case Nil
  then show ?case by (simp add: once_refl)
next
  case (Cons f fs)
  have 1: "once t s (fst (f s), snd (f s))" using Cons.prems[of f s] by simp
  have 2: "once t (fst (f s)) (fst (run_all fs (fst (f s))), snd (run_all fs (fst (f s))))"
    using Cons.IH[of "fst (f s)"] Cons.prems by simp
  have "run_all (f # fs) s = (fst (run_all fs (fst (f s))), snd (f s) @ snd (run_all fs (fst (f s))))"
    by (simp split: prod.splits)
  then show ?case using once_trans[OF 1 2] by simp
qed

lemma once_cleanup_other: "t' \<noteq> t \<Longrightarrow> once t s (cleanup t' s, [])"
  by (simp add: once_def enters_def cleanup_def binds_def drives_def)

lemma once_req_verifier_update:
  "once t (s\<lparr>req_verifier := f\<rparr>) r \<Longrightarrow> once t s r"
  by (simp add: once_def)

lemma once_run_all_map:
  assumes "\<And>x s. x \<in> set xs \<Longrightarrow> once t s (g x s)"
  shows "once t s (run_all (map g xs) s)"
proof (rule once_run_all)
  fix f s'
  assume "f \<in> set (map g xs)"
  then obtain x where "x \<in> set xs" "f = g x" by auto
  then show "once t s' (f s')" using assms by simp
qed

lemma once_completion_other:
  assumes "t \<notin> snd ` set (bindings_of r s)"
  shows "once t s (run_all (map (\<lambda>(v, t') s'. (cleanup t' s', [])) (bindings_of r s)) s)"
proof (rule once_run_all_map)
  fix x s'
  assume x: "x \<in> set (bindings_of r s)"
  obtain v t' where vt: "x = (v, t')" by (cases x)
  have "t' \<noteq> t" using assms x vt by force
  then show "once t s' ((case x of (v, t') \<Rightarrow> \<lambda>s'. (cleanup t' s', [])) s')"
    using vt by (simp add: once_cleanup_other)
qed

lemma once_step: "\<not> completes t s e \<Longrightarrow> once t s (step s e)"
proof (cases e)
  case (VerificationRequest req)
  then show ?thesis by (simp add: once_on_verification_request)
next
  case (AcceptSettled r)
  then show ?thesis by (simp add: once_on_accept_settled)
next
  case (RequestChange r v)
  have "once t (s\<lparr>req_verifier := (req_verifier s)(r := v)\<rparr>)
          (run_all (map on_change (filter (\<lambda>req. req_ref req = r) (changeListeners s)))
             (s\<lparr>req_verifier := (req_verifier s)(r := v)\<rparr>))"
    by (rule once_run_all_map) (rule once_on_change)
  then show ?thesis unfolding RequestChange step.simps by (rule once_req_verifier_update)
next
  case (VerificationStart v req)
  then show ?thesis by (simp add: once_on_verification_start)
next
  case (ToDeviceEvent ty txn)
  then show ?thesis by (simp add: once_on_to_device)
next
  case (ShowSas r ev)
  have "once t s (run_all (map (\<lambda>(v, t). on_show_sas v t ev) (bindings_of r s)) s)"
  proof (rule once_run_all_map)
    fix x s'
    show "once t s' ((case x of (v, t) \<Rightarrow> on_show_sas v t ev) s')"
      by (cases x) (simp add: once_on_show_sas)
  qed
  then show ?thesis unfolding ShowSas step.simps .
next
  case (Done r)
  assume "\<not> completes t s e"
  then have "t \<notin> snd ` set (bindings_of r s)" using Done by simp
  then show ?thesis unfolding Done step.simps by (rule once_completion_other)
next
  case (CancelEvent r)
  assume "\<not> completes t s e"
  then have "t \<notin> snd ` set (bindings_of r s)" using CancelEvent by simp
  then show ?thesis unfolding CancelEvent step.simps by (rule once_completion_other)
next
  case (Line l)
  then show ?thesis by (simp add: once_on_line)
qed

lemma once_run: "no_completion t s es \<Longrightarrow> once t s (run s es)"
proof (induction es arbitrary: s)
  case Nil
  then show ?case by (simp add: once_refl)
next
  case (Cons e es)
  have 1: "once t s (fst (step s e), snd (step s e))" using once_step[of t s e] Cons.prems by simp
  have 2: "once t (fst (step s e)) (fst (run (fst (step s e)) es), snd (run (fst (step s e)) es))"
    using Cons.IH[of "fst (step s e)"] Cons.prems by simp
  have "run s (e # es) = (fst (run (fst (step s e)) es), snd (step s e) @ snd (run (fst (step s e)) es))"
    by (simp split: prod.splits)
  then show ?case using once_trans[OF 1 2] by simp
qed













lemma req_verifier_bind [simp]:
  "req_verifier (fst (bindVerifierEventHandlers v txnId s)) = req_verifier s"
  by (simp add: bindVerifierEventHandlers_def Let_def)








text \<open>
  Each guard set counts its own call, from any state: handlers are attached for \<open>t\<close>
  once if \<open>t\<close> enters \<open>boundTxns\<close> and never otherwise, and \<open>verify()\<close> is called to
  drive \<open>t\<close> once if \<open>t\<close> enters \<open>begunHandshakeTxns\<close> and never otherwise.
\<close>

lemma guard_sets_count_separately:
  assumes "no_completion t s es"
  shows "binds t (snd (run s es)) =
           (if t \<in> boundTxns (fst (run s es)) \<and> t \<notin> boundTxns s then 1 else 0) \<and>
         drives t (snd (run s es)) =
           (if t \<in> begunHandshakeTxns (fst (run s es)) \<and> t \<notin> begunHandshakeTxns s
            then 1 else 0)"
  using once_run[OF assms] by (simp add: once_def enters_def)



section \<open>Single concurrent verification\<close>

text \<open>
  C3 (as amended). A verification request that arrives while \<open>activeVerifier\<close> is set
  is ignored: it is not stored, \<open>accept()\<close> is not called, and the state is unchanged.
\<close>

theorem request_while_active_ignored:
  assumes "activeVerifier s = Some busy"
  shows "step s (VerificationRequest req) = (s, [])"
  using assms by (simp add: on_verification_request_def)

theorem request_while_active_ignored_witness:
  "activeVerifier (fst (run init_state trace_bound)) = Some v1 \<and>
   req_transactionId r2 = Some ''t2'' \<and> v_transactionId v1 = Some ''t1'' \<and>
   step (fst (run init_state trace_bound)) (VerificationRequest r2) =
     (fst (run init_state trace_bound), [])"
proof -
  have h: "activeVerifier (fst (run init_state trace_bound)) = Some v1" by code_simp
  show ?thesis
    using request_while_active_ignored[OF h, of r2] h by (simp add: r2_def v1_def)
qed

text \<open>
  The claim as stated fails in three runs. Two requests that arrive before any verifier
  is bound are both accepted, and both transactions are then bound and driven. A
  \<open>crypto.verification.start\<close> for a second transaction binds it while the first is
  active and replaces the active verifier. In both runs two transactions are in
  \<open>begunHandshakeTxns\<close> at once. And when the first of two bound transactions is done,
  its cleanup clears \<open>activeVerifier\<close> although the second is still bound and driven,
  so a third request is stored and accepted.
\<close>

theorem two_sessions_handshaking_counterexample:
  "begunHandshakeTxns (fst (run init_state
      [VerificationRequest r1, VerificationRequest r2,
       VerificationStart v1 (Some r1), VerificationStart v2 (Some r2)])) = {''t1'', ''t2''} \<and>
   snd (run init_state
      [VerificationRequest r1, VerificationRequest r2,
       VerificationStart v1 (Some r1), VerificationStart v2 (Some r2)]) =
     [AcceptRequest 10, AcceptRequest 20, AttachHandlers 1 ''t1'', DriveVerify 1 ''t1'',
      AttachHandlers 2 ''t2'', DriveVerify 2 ''t2''] \<and>
   activeVerifier (fst (run init_state trace_bound)) = Some v1 \<and>
   begunHandshakeTxns (fst (run init_state
      (trace_bound @ [VerificationRequest r2, VerificationStart v2 (Some r2)]))) = {''t1'', ''t2''} \<and>
   activeVerifier (fst (run init_state
      (trace_bound @ [VerificationRequest r2, VerificationStart v2 (Some r2)]))) = Some v2 \<and>
   boundTxns (fst (run init_state
      [VerificationRequest r1, VerificationRequest r2,
       VerificationStart v1 (Some r1), VerificationStart v2 (Some r2), Done 1])) = {''t2''} \<and>
   begunHandshakeTxns (fst (run init_state
      [VerificationRequest r1, VerificationRequest r2,
       VerificationStart v1 (Some r1), VerificationStart v2 (Some r2), Done 1])) = {''t2''} \<and>
   activeVerifier (fst (run init_state
      [VerificationRequest r1, VerificationRequest r2,
       VerificationStart v1 (Some r1), VerificationStart v2 (Some r2), Done 1])) = None \<and>
   snd (step (fst (run init_state
      [VerificationRequest r1, VerificationRequest r2,
       VerificationStart v1 (Some r1), VerificationStart v2 (Some r2), Done 1]))
      (VerificationRequest r3)) = [AcceptRequest 30] \<and>
   pendingVerificationRequests (fst (step (fst (run init_state
      [VerificationRequest r1, VerificationRequest r2,
       VerificationStart v1 (Some r1), VerificationStart v2 (Some r2), Done 1]))
      (VerificationRequest r3))) ''t3'' = Some r3"
  by code_simp

section \<open>Completed transactions\<close>

lemma cleanup_idem: "cleanup t (cleanup t s) = cleanup t s"
  by (simp add: cleanup_def)

lemma purged_cleanup: "purged t (cleanup t s)"
  by (simp add: purged_def cleanup_def)

lemma purged_cleanup_other: "purged t s \<Longrightarrow> purged t (cleanup t' s)"
  by (simp add: purged_def cleanup_def)

lemma completion_quiet:
  "snd (run_all (map (\<lambda>(v, t') s'. (cleanup t' s', [] :: effect list)) xs) s) = [] \<and>
   (purged t s \<longrightarrow>
      purged t (fst (run_all (map (\<lambda>(v, t') s'. (cleanup t' s', [] :: effect list)) xs) s)))"
proof (induction xs arbitrary: s)
  case Nil
  then show ?case by simp
next
  case (Cons x xs)
  obtain v t' where x: "x = (v, t')" by (cases x)
  show ?case
    using Cons.IH[of "cleanup t' s"] purged_cleanup_other[of t s t'] x
    by (simp split: prod.splits)
qed

lemma to_device_start_dead:
  "purged t s \<Longrightarrow> step s (ToDeviceEvent ''m.key.verification.start'' (Some t)) = (s, [])"
  by (simp add: on_to_device_def purged_def)

lemma line_keeps_purged: "purged t s \<Longrightarrow> purged t (fst (on_line l s))"
proof (cases "activeVerifier s")
  case None
  assume "purged t s"
  then show ?thesis using None by (simp add: on_line_def Let_def purged_def)
next
  case (Some av)
  assume p: "purged t s"
  obtain ok xs where c: "confirm_call av s = (ok, xs)" by (cases "confirm_call av s")
  show ?thesis using Some c p
    by (cases ok) (simp_all add: on_line_def Let_def purged_def)
qed

lemma start_rebinds:
  "purged t s \<Longrightarrow> start_txn v req = Some t \<Longrightarrow> t \<noteq> [] \<Longrightarrow>
   snd (step s (VerificationStart v req)) = [AttachHandlers (v_ref v) t, DriveVerify (v_ref v) t]"
  by (simp add: on_verification_start_def bindVerifierEventHandlers_def Let_def purged_def)

text \<open>
  C4 (as amended). Cleanup purges \<open>t\<close> and is idempotent. In a state where \<open>t\<close> is
  purged: a to-device start for \<open>t\<close> is a no-op; a \<open>done\<close> or \<open>cancel\<close> callback makes
  no call and leaves \<open>t\<close> purged; an operator line binds and drives nothing and leaves
  \<open>t\<close> purged; but a \<open>crypto.verification.start\<close> for \<open>t\<close> attaches handlers and
  drives \<open>t\<close> again.
\<close>

theorem dead_transaction_replay:
  assumes p: "purged t s"
  shows "purged t (cleanup t s0) \<and> cleanup t (cleanup t s0) = cleanup t s0 \<and>
         step s (ToDeviceEvent ''m.key.verification.start'' (Some t)) = (s, []) \<and>
         snd (step s (Done r)) = [] \<and> purged t (fst (step s (Done r))) \<and>
         snd (step s (CancelEvent r)) = [] \<and> purged t (fst (step s (CancelEvent r))) \<and>
         binds t (snd (step s (Line l))) = 0 \<and> drives t (snd (step s (Line l))) = 0 \<and>
         purged t (fst (step s (Line l))) \<and>
         (start_txn v req = Some t \<and> t \<noteq> [] \<longrightarrow>
            snd (step s (VerificationStart v req)) =
              [AttachHandlers (v_ref v) t, DriveVerify (v_ref v) t])"
  using p completion_quiet[of "bindings_of r s" s t] on_line_quiet[of l s t]
    line_keeps_purged[OF p, of l] to_device_start_dead[OF p] start_rebinds[OF p, of v req]
  by (simp add: purged_cleanup cleanup_idem)

theorem dead_transaction_replay_witness:
  "purged ''t1'' (fst (run init_state trace_done)) \<and>
   step (fst (run init_state trace_done)) (ToDeviceEvent ''m.key.verification.start'' (Some ''t1'')) =
     (fst (run init_state trace_done), []) \<and>
   snd (step (fst (run init_state trace_done)) (CancelEvent 1)) = [] \<and>
   start_txn v1 (Some r1) = Some ''t1'' \<and>
   snd (step (fst (run init_state trace_done)) (VerificationStart v1 (Some r1))) =
     [AttachHandlers 1 ''t1'', DriveVerify 1 ''t1'']"
proof -
  have h: "purged ''t1'' (fst (run init_state trace_done))" by code_simp
  have s: "start_txn v1 (Some r1) = Some ''t1''" by code_simp
  have r: "v_ref v1 = 1" by (simp add: v1_def)
  show ?thesis
    using dead_transaction_replay[OF h, of init_state 1 "''y''" v1 "Some r1"] h s r by simp
qed

text \<open>
  The claim as stated fails: after \<open>t1\<close> has completed, a replayed
  \<open>crypto.verification.start\<close> (or a \<open>change\<close> of the request, whose listener is still
  attached) binds and drives \<open>t1\<close> a second time.
\<close>

theorem dead_transaction_rebound_counterexample:
  "snd (run init_state trace_done) = [AcceptRequest 10, AttachHandlers 1 ''t1'', DriveVerify 1 ''t1''] \<and>
   purged ''t1'' (fst (run init_state trace_done)) \<and>
   activeVerifier (fst (run init_state trace_done)) = None \<and>
   snd (step (fst (run init_state trace_done)) (VerificationStart v1 (Some r1))) =
     [AttachHandlers 1 ''t1'', DriveVerify 1 ''t1''] \<and>
   boundTxns (fst (step (fst (run init_state trace_done)) (VerificationStart v1 (Some r1)))) = {''t1''} \<and>
   activeVerifier (fst (step (fst (run init_state trace_done)) (VerificationStart v1 (Some r1)))) = Some v1 \<and>
   snd (step (fst (run init_state trace_done)) (RequestChange 10 (Some v1))) =
     [AttachHandlers 1 ''t1'', DriveVerify 1 ''t1'']"
  by code_simp

section \<open>The operator's decision\<close>

lemma show_sas_not_queued:
  "pendingVerifierDecision s \<noteq> Some Confirm \<Longrightarrow>
   snd (run_all (map (\<lambda>(v, t). on_show_sas v t ev) xs) s) = [] \<and>
   pendingVerifierDecision (fst (run_all (map (\<lambda>(v, t). on_show_sas v t ev) xs) s)) =
     pendingVerifierDecision s \<and>
   handlers (fst (run_all (map (\<lambda>(v, t). on_show_sas v t ev) xs) s)) = handlers s"
proof (induction xs arbitrary: s)
  case Nil
  then show ?case by simp
next
  case (Cons x xs)
  obtain v t where x: "x = (v, t)" by (cases x)
  have f: "on_show_sas v t ev s = (s\<lparr>activeSas := Some ev\<rparr>, [])"
    using Cons.prems by (simp add: on_show_sas_def Let_def)
  show ?case using Cons.IH[of "s\<lparr>activeSas := Some ev\<rparr>"] Cons.prems x f by simp
qed

lemma show_sas_queued:
  assumes q: "pendingVerifierDecision s = Some Confirm" and ne: "bindings_of r s \<noteq> []"
  shows "snd (step s (ShowSas r ev)) = confirm_effects r ev \<and>
         pendingVerifierDecision (fst (step s (ShowSas r ev))) = None \<and>
         handlers (fst (step s (ShowSas r ev))) = handlers s"
proof -
  obtain v t xs where b: "bindings_of r s = (v, t) # xs" using ne by (cases "bindings_of r s") auto
  then have "(v, t) \<in> set (bindings_of r s)" by simp
  then have vr: "v_ref v = r" by (simp add: bindings_of_def)
  define s1 where "s1 = s\<lparr>activeSas := Some ev, pendingVerifierDecision := None\<rparr>"
  have f: "on_show_sas v t ev s = (s1, confirm_effects r ev)"
    using q vr
    by (cases "sas_confirm ev") (simp_all add: on_show_sas_def Let_def s1_def confirm_effects_def)
  have n: "pendingVerifierDecision s1 \<noteq> Some Confirm" by (simp add: s1_def)
  have st: "step s (ShowSas r ev) =
      run_all ((\<lambda>(v, t). on_show_sas v t ev) (v, t) # map (\<lambda>(v, t). on_show_sas v t ev) xs) s"
    using b by simp
  have fs: "fst ((\<lambda>(v, t). on_show_sas v t ev) (v, t) s) = s1"
    "snd ((\<lambda>(v, t). on_show_sas v t ev) (v, t) s) = confirm_effects r ev"
    using f by simp_all
  show ?thesis
    unfolding st fst_run_all_Cons snd_run_all_Cons fs
    using show_sas_not_queued[OF n, of ev xs] by (simp add: s1_def)
qed

lemma show_sas_again:
  assumes q: "pendingVerifierDecision s = Some Confirm" and ne: "bindings_of r s \<noteq> []"
  shows "snd (step (fst (step s (ShowSas r ev))) (ShowSas r ev')) = []"
proof -
  have "pendingVerifierDecision (fst (step s (ShowSas r ev))) \<noteq> Some Confirm"
    using show_sas_queued[OF q ne, of ev] by simp
  then show ?thesis
    using show_sas_not_queued[of "fst (step s (ShowSas r ev))" ev'] by simp
qed

lemma ncq_bind: "no_cancel_queued s \<Longrightarrow> no_cancel_queued (fst (bindVerifierEventHandlers v t s))"
  by (simp add: bindVerifierEventHandlers_def Let_def no_cancel_queued_def)

lemma ncq_on_change: "no_cancel_queued s \<Longrightarrow> no_cancel_queued (fst (on_change req s))"
  by (simp add: on_change_def ncq_bind split: option.splits)

lemma ncq_on_show_sas: "no_cancel_queued s \<Longrightarrow> no_cancel_queued (fst (on_show_sas v t ev s))"
  by (simp add: on_show_sas_def Let_def no_cancel_queued_def)

lemma ncq_cleanup: "no_cancel_queued (cleanup t s)"
  by (simp add: cleanup_def no_cancel_queued_def)

lemma ncq_on_line: "no_cancel_queued s \<Longrightarrow> no_cancel_queued (fst (on_line l s))"
proof (cases "activeVerifier s")
  case None
  assume "no_cancel_queued s"
  then show ?thesis using None by (simp add: on_line_def Let_def no_cancel_queued_def)
next
  case (Some av)
  assume p: "no_cancel_queued s"
  obtain ok xs where c: "confirm_call av s = (ok, xs)" by (cases "confirm_call av s")
  show ?thesis using Some c p
    by (cases ok) (simp_all add: on_line_def Let_def no_cancel_queued_def)
qed

lemma ncq_run_all:
  "(\<And>f s. f \<in> set fs \<Longrightarrow> no_cancel_queued s \<Longrightarrow> no_cancel_queued (fst (f s))) \<Longrightarrow>
   no_cancel_queued s \<Longrightarrow> no_cancel_queued (fst (run_all fs s))"
proof (induction fs arbitrary: s)
  case Nil
  then show ?case by simp
next
  case (Cons f fs)
  have "no_cancel_queued (fst (f s))" using Cons.prems by simp
  then have "no_cancel_queued (fst (run_all fs (fst (f s))))" using Cons.IH Cons.prems by simp
  then show ?case by (simp only: fst_run_all_Cons)
qed

lemma ncq_run_all_map:
  assumes "\<And>x s. x \<in> set xs \<Longrightarrow> no_cancel_queued s \<Longrightarrow> no_cancel_queued (fst (g x s))"
      and "no_cancel_queued s"
  shows "no_cancel_queued (fst (run_all (map g xs) s))"
proof (rule ncq_run_all)
  fix f s'
  assume "f \<in> set (map g xs)" and a: "no_cancel_queued s'"
  then obtain x where "x \<in> set xs" "f = g x" by auto
  then show "no_cancel_queued (fst (f s'))" using assms(1) a by simp
qed (rule assms(2))

lemma ncq_completion:
  assumes "no_cancel_queued s"
  shows "no_cancel_queued (fst (run_all
            (map (\<lambda>(v :: verifier, t') s'. (cleanup t' s', [] :: effect list)) xs) s))"
proof (rule ncq_run_all_map)
  fix x :: "verifier \<times> string" and s'
  show "no_cancel_queued (fst ((case x of (v, t') \<Rightarrow> \<lambda>s'. (cleanup t' s', [] :: effect list)) s'))"
    by (cases x) (simp add: ncq_cleanup)
qed (rule assms)

lemma ncq_step:
  assumes a: "no_cancel_queued s"
  shows "no_cancel_queued (fst (step s e))"
proof (cases e)
  case (VerificationRequest req)
  then show ?thesis using a
    by (cases "activeVerifier s")
       (simp_all add: on_verification_request_def no_cancel_queued_def Let_def split: option.splits)
next
  case (AcceptSettled r)
  then show ?thesis using a
    by (cases "find (\<lambda>req. req_ref req = r) (accepting s)")
       (simp_all add: on_accept_settled_def no_cancel_queued_def)
next
  case (RequestChange r v)
  have "no_cancel_queued (s\<lparr>req_verifier := (req_verifier s)(r := v)\<rparr>)"
    using a by (simp add: no_cancel_queued_def)
  then have "no_cancel_queued (fst (run_all (map on_change
       (filter (\<lambda>req. req_ref req = r) (changeListeners s)))
       (s\<lparr>req_verifier := (req_verifier s)(r := v)\<rparr>)))"
    by (rule ncq_run_all_map[rotated]) (rule ncq_on_change)
  then show ?thesis unfolding RequestChange step.simps .
next
  case (VerificationStart v req)
  then show ?thesis using a
    by (simp add: on_verification_start_def ncq_bind split: option.splits)
next
  case (ToDeviceEvent ty txn)
  then show ?thesis using a
    by (simp add: on_to_device_def ncq_bind split: option.splits)
next
  case (ShowSas r ev)
  have "no_cancel_queued (fst (run_all (map (\<lambda>(v, t). on_show_sas v t ev) (bindings_of r s)) s))"
  proof (rule ncq_run_all_map)
    fix x s'
    assume "no_cancel_queued s'"
    then show "no_cancel_queued (fst ((case x of (v, t) \<Rightarrow> on_show_sas v t ev) s'))"
      by (cases x) (simp add: ncq_on_show_sas)
  qed (rule a)
  then show ?thesis unfolding ShowSas step.simps .
next
  case (Done r)
  show ?thesis unfolding Done step.simps using a by (rule ncq_completion)
next
  case (CancelEvent r)
  show ?thesis unfolding CancelEvent step.simps using a by (rule ncq_completion)
next
  case (Line l)
  then show ?thesis using a by (simp add: ncq_on_line)
qed

lemma ncq_run: "no_cancel_queued s \<Longrightarrow> no_cancel_queued (fst (run s es))"
proof (induction es arbitrary: s)
  case Nil
  then show ?case by simp
next
  case (Cons e es)
  have "no_cancel_queued (fst (step s e))" using Cons.prems by (rule ncq_step)
  then have "no_cancel_queued (fst (run (fst (step s e)) es))" by (rule Cons.IH)
  then show ?case by (simp only: fst_run_Cons)
qed

text \<open>
  C10. With no verifier active, a line that trims and lower-cases to \<open>y\<close> or \<open>yes\<close>
  queues a confirm and a line that gives \<open>n\<close> or \<open>no\<close>, or anything else, changes
  nothing. When the SAS is
  shown on a bound verifier with a confirm queued, the slot is cleared and the confirm
  calls are made once; showing the SAS again makes no call, and so does showing it with no
  confirm queued. No run from the initial state ever has a cancel in the slot.
\<close>

theorem queued_confirm_applied_once:
  "(activeVerifier s = None \<and> (toLowerCase (trim l) = ''y'' \<or> toLowerCase (trim l) = ''yes'') \<longrightarrow>
      step s (Line l) = (s\<lparr>pendingVerifierDecision := Some Confirm\<rparr>, [])) \<and>
   (activeVerifier s = None \<and> (toLowerCase (trim l) = ''n'' \<or> toLowerCase (trim l) = ''no'') \<longrightarrow>
      step s (Line l) = (s, [])) \<and>
   (pendingVerifierDecision s = Some Confirm \<and> bindings_of r s \<noteq> [] \<longrightarrow>
      snd (step s (ShowSas r ev)) = confirm_effects r ev \<and>
      pendingVerifierDecision (fst (step s (ShowSas r ev))) = None \<and>
      snd (step (fst (step s (ShowSas r ev))) (ShowSas r ev')) = []) \<and>
   (pendingVerifierDecision s \<noteq> Some Confirm \<longrightarrow> snd (step s (ShowSas r ev)) = []) \<and>
   pendingVerifierDecision (fst (run init_state es)) \<noteq> Some Cancel \<and>
   (activeVerifier s = None \<and> toLowerCase (trim l) \<noteq> ''y'' \<and> toLowerCase (trim l) \<noteq> ''yes'' \<longrightarrow>
      step s (Line l) = (s, []))"
proof -
  have a': "activeVerifier s = None \<and> toLowerCase (trim l) \<noteq> ''y'' \<and> toLowerCase (trim l) \<noteq> ''yes'' \<longrightarrow>
      step s (Line l) = (s, [])"
    by (auto simp: on_line_def Let_def)
  have a: "activeVerifier s = None \<and> (toLowerCase (trim l) = ''y'' \<or> toLowerCase (trim l) = ''yes'') \<longrightarrow>
      step s (Line l) = (s\<lparr>pendingVerifierDecision := Some Confirm\<rparr>, [])"
    by (auto simp: on_line_def Let_def)
  have b: "activeVerifier s = None \<and> (toLowerCase (trim l) = ''n'' \<or> toLowerCase (trim l) = ''no'') \<longrightarrow>
      step s (Line l) = (s, [])"
    by (auto simp: on_line_def Let_def)
  have c: "pendingVerifierDecision s = Some Confirm \<and> bindings_of r s \<noteq> [] \<longrightarrow>
      snd (step s (ShowSas r ev)) = confirm_effects r ev \<and>
      pendingVerifierDecision (fst (step s (ShowSas r ev))) = None \<and>
      snd (step (fst (step s (ShowSas r ev))) (ShowSas r ev')) = []"
    using show_sas_queued[of s r ev] show_sas_again[of s r ev ev'] by blast
  have d: "pendingVerifierDecision s \<noteq> Some Confirm \<longrightarrow> snd (step s (ShowSas r ev)) = []"
    using show_sas_not_queued[of s ev "bindings_of r s"] by simp
  have "no_cancel_queued init_state" by (simp add: no_cancel_queued_def init_state_def)
  then have e: "pendingVerifierDecision (fst (run init_state es)) \<noteq> Some Cancel"
    using ncq_run[of init_state es] by (simp add: no_cancel_queued_def)
  show ?thesis using a a' b c d e by blast
qed

theorem queued_confirm_applied_once_witness:
  "activeVerifier init_state = None \<and> toLowerCase (trim '' Yes '') = ''yes'' \<and>
   toLowerCase (trim ''no'') = ''no'' \<and>
   toLowerCase (trim [CHR 0x09, CHR ''Y'', CHR 0xA0, CHR 0x0D]) = ''y'' \<and>
   step init_state (Line [CHR 0x09, CHR ''Y'', CHR 0xA0, CHR 0x0D]) =
     (init_state\<lparr>pendingVerifierDecision := Some Confirm\<rparr>, []) \<and>
   toLowerCase (trim ''maybe'') = ''maybe'' \<and>
   step init_state (Line ''maybe'') = (init_state, []) \<and>
   step init_state (Line '' Yes '') = (init_state\<lparr>pendingVerifierDecision := Some Confirm\<rparr>, []) \<and>
   step init_state (Line ''no'') = (init_state, []) \<and>
   pendingVerifierDecision (fst (run init_state trace_queued)) = Some Confirm \<and>
   bindings_of 1 (fst (run init_state trace_queued)) = [(v1, ''t1'')] \<and>
   snd (step (fst (run init_state trace_queued)) (ShowSas 1 sas_ok)) = [SasConfirm, ConfirmVerify 1] \<and>
   pendingVerifierDecision (fst (step (fst (run init_state trace_queued)) (ShowSas 1 sas_ok))) = None \<and>
   snd (step (fst (step (fst (run init_state trace_queued)) (ShowSas 1 sas_ok))) (ShowSas 1 sas_ok)) = []"
proof -
  have h1: "activeVerifier init_state = None" by (simp add: init_state_def)
  have h2: "toLowerCase (trim '' Yes '') = ''yes''" by code_simp
  have h3: "toLowerCase (trim ''no'') = ''no''" by code_simp
  have h4: "pendingVerifierDecision (fst (run init_state trace_queued)) = Some Confirm" by code_simp
  have h5: "bindings_of 1 (fst (run init_state trace_queued)) = [(v1, ''t1'')]" by code_simp
  have h6: "confirm_effects 1 sas_ok = [SasConfirm, ConfirmVerify 1]"
    by (simp add: confirm_effects_def sas_ok_def)
  note t1 = queued_confirm_applied_once[of init_state "'' Yes ''" 1 sas_ok sas_ok "[]"]
  note t2 = queued_confirm_applied_once[of init_state "''no''" 1 sas_ok sas_ok "[]"]
  note t3 = queued_confirm_applied_once[of "fst (run init_state trace_queued)" "''no''" 1 sas_ok sas_ok "[]"]
  note t4 = queued_confirm_applied_once[of init_state "[CHR 0x09, CHR ''Y'', CHR 0xA0, CHR 0x0D]"
      1 sas_ok sas_ok "[]"]
  note t5 = queued_confirm_applied_once[of init_state "''maybe''" 1 sas_ok sas_ok "[]"]
  have h7: "toLowerCase (trim [CHR 0x09, CHR ''Y'', CHR 0xA0, CHR 0x0D]) = ''y''" by code_simp
  have h8: "toLowerCase (trim ''maybe'') = ''maybe''" by code_simp
  have p4: "step init_state (Line [CHR 0x09, CHR ''Y'', CHR 0xA0, CHR 0x0D]) =
     (init_state\<lparr>pendingVerifierDecision := Some Confirm\<rparr>, [])"
    using t4 h1 h7 by blast
  have p5: "step init_state (Line ''maybe'') = (init_state, [])"
    using t5 h1 h8 by (simp del: step.simps)
  have p1: "step init_state (Line '' Yes '') = (init_state\<lparr>pendingVerifierDecision := Some Confirm\<rparr>, [])"
    using t1 h1 h2 by blast
  have p2: "step init_state (Line ''no'') = (init_state, [])"
    using t2 h1 h3 by blast
  have ne: "bindings_of 1 (fst (run init_state trace_queued)) \<noteq> []" using h5 by simp
  have p3: "snd (step (fst (run init_state trace_queued)) (ShowSas 1 sas_ok)) = confirm_effects 1 sas_ok \<and>
      pendingVerifierDecision (fst (step (fst (run init_state trace_queued)) (ShowSas 1 sas_ok))) = None \<and>
      snd (step (fst (step (fst (run init_state trace_queued)) (ShowSas 1 sas_ok))) (ShowSas 1 sas_ok)) = []"
    using t3 h4 ne by blast
  show ?thesis using h1 h2 h3 h4 h5 h6 h7 h8 p1 p2 p3 p4 p5 by simp
qed

section \<open>Key-request de-duplication\<close>

lemma key_request_suppressed_while_recorded:
  "dedupeKey ev hint = Some k \<Longrightarrow> k \<in> requestedKeySessions s \<Longrightarrow>
   kstep c s (Undecryptable ev hint rejected) = (s, [])"
  by (simp add: tryRequestMissingKeys_begin_def)

lemma key_recorded_on_resume:
  "k \<in> requestedKeySessions (fst (record_request i p s)) \<and>
   (clock s + 600000, pc_key p) \<in> set (timers (fst (record_request i p s)))"
  if "pc_key p = k"
  using that by (simp add: record_request_def)

lemma key_expires:
  "(d, k) \<in> set (timers s) \<Longrightarrow> d \<le> t \<Longrightarrow> k \<notin> requestedKeySessions (advance_to t s)"
  by (force simp: advance_to_def Let_def)

text \<open>
  C5. Two undecryptable events of the same room and session whose calls overlap: each
  call passes the duplicate check before the other has recorded the key, so two key
  requests are issued at the same instant. Calls that do not overlap are de-duplicated:
  the second is suppressed until the ten minutes have passed.
\<close>

theorem overlapping_key_requests_not_deduplicated:
  "dedupeKey enc1 None = Some ''!R|S1'' \<and> dedupeKey enc2 None = Some ''!R|S1'' \<and>
   snd (krun cfg1 kinit trace_batch) =
     [CancelAndResend 1, CancelAndResend 2, CryptoRequestKeys 1, CryptoRequestKeys 2,
      EnsureOlmSessions [''@alice:hs'', ''@me:hs''], EnsureOlmSessions [''@alice:hs'', ''@me:hs'']] \<and>
   key_requests (snd (krun cfg1 kinit trace_batch)) = 2 \<and>
   clock (fst (krun cfg1 kinit trace_batch)) = 0 \<and>
   snd (krun cfg1 kinit trace_sequential) =
     [CancelAndResend 1, CryptoRequestKeys 1, EnsureOlmSessions [''@alice:hs'', ''@me:hs''],
      CancelAndResend 2, CryptoRequestKeys 2, EnsureOlmSessions [''@alice:hs'', ''@me:hs'']] \<and>
   clock (fst (krun cfg1 kinit trace_sequential)) = 600000"
  by code_simp

end
